theory Spec2Isabelle
  imports Main "HOL-Library.Word"
begin

section \<open>Go values used by the prover and the driver\<close>

text \<open>
  \<^verbatim>\<open>uint64\<close> is a 64-bit word: \<open>+\<close> and \<open>-\<close> wrap around, as Go's do.
  \<^verbatim>\<open>*big.Int\<close> is an unbounded integer; a \<^verbatim>\<open>nil\<close> pointer is \<open>None\<close> where the
  source tests for it.
\<close>

type_synonym uint64 = "64 word"
type_synonym Hash = "256 word"
type_synonym Address = "160 word"

text \<open>
  Go's \<^verbatim>\<open>error\<close>. \<open>Wrapped\<close> is \<^verbatim>\<open>fmt.Errorf("...: %w", err)\<close>;
  \<open>PermanentError\<close> is the wrapper of the backoff library (\<^verbatim>\<open>backoff.Permanent\<close>),
  which its retry loop unwraps and returns at once.
  A Go result pair \<^verbatim>\<open>(v, err)\<close> is a value of \<open>error + 'a\<close>, \<open>Inl\<close> the error.
\<close>

datatype error = Error string | Wrapped string error | PermanentError error

text \<open>
  \<^verbatim>\<open>(*big.Int).Uint64\<close> of the Go standard library returns the low 64 bits of the
  magnitude of its receiver.
\<close>

definition Uint64 :: "int \<Rightarrow> uint64" where
  "Uint64 x = word_of_int \<bar>x\<bar>"

text \<open>\<^verbatim>\<open>new(big.Int).SetUint64(x)\<close>.\<close>

definition SetUint64 :: "uint64 \<Rightarrow> int" where
  "SetUint64 x = uint x"

text \<open>
  A \<^verbatim>\<open>context.Context\<close> is represented by what its \<^verbatim>\<open>Err()\<close> returns:
  \<open>None\<close> while it is live, the cancellation error afterwards.
\<close>

type_synonym Context = "error option"

subsection \<open>The retry loop of the backoff library\<close>

text \<open>\<^verbatim>\<open>time.Duration\<close>, in nanoseconds.\<close>

type_synonym Duration = int

definition Second :: Duration where
  "Second = 1000000000"

text \<open>
  \<^verbatim>\<open>errors.As(err, &permanent)\<close>: the first \<^verbatim>\<open>*PermanentError\<close> in the chain of
  \<open>err\<close>, and the error it holds.
\<close>

fun permanent :: "error \<Rightarrow> error option" where
  "permanent (Error msg) = None"
| "permanent (Wrapped msg err) = permanent err"
| "permanent (PermanentError err) = Some err"

text \<open>
  A \<^verbatim>\<open>backoff.BackOff\<close> is represented by the answers of \<^verbatim>\<open>NextBackOff()\<close>: the
  wait after the \<open>k\<close>-th failed attempt, or \<open>None\<close> for \<^verbatim>\<open>backoff.Stop\<close>.
  \<^verbatim>\<open>NewConstantBackOff(d)\<close> always answers \<open>d\<close>. What \<^verbatim>\<open>NewExponentialBackOff()\<close>
  answers depends on the clock and on a random factor, so it is an input where it is
  used.
\<close>

type_synonym BackOff = "nat \<Rightarrow> Duration option"

definition NewConstantBackOff :: "Duration \<Rightarrow> BackOff" where
  "NewConstantBackOff d = (\<lambda>k. Some d)"

text \<open>
  The loop of \<^verbatim>\<open>backoff.Retry(operation, b)\<close> (github.com/cenkalti/backoff/v4) for
  a \<open>b\<close> made without \<^verbatim>\<open>WithContext\<close>, as every \<open>b\<close> of the two files is: the
  context of the loop is \<^verbatim>\<open>context.Background()\<close>, which is never done, so the loop
  ends only when the operation returns \<^verbatim>\<open>nil\<close> or a permanent error, or the policy
  answers \<^verbatim>\<open>Stop\<close>. The operation is given the number \<open>k\<close> of the attempt and the
  state it works on; the result is the returned error, the state and the waits
  made between the attempts. A loop that never returns has the value \<open>None\<close>.
\<close>

partial_function (option) Retry_loop ::
  "(nat \<Rightarrow> 's \<Rightarrow> error option \<times> 's) \<Rightarrow> BackOff \<Rightarrow> nat \<Rightarrow> 's \<Rightarrow> Duration list
     \<Rightarrow> (error option \<times> 's \<times> Duration list) option" where
  "Retry_loop operation b k s waits =
     (case operation k s of
        (None, s') \<Rightarrow> Some (None, s', waits)
      | (Some err, s') \<Rightarrow>
          (case permanent err of
             Some inner \<Rightarrow> Some (Some inner, s', waits)
           | None \<Rightarrow>
               (case b k of
                  None \<Rightarrow> Some (Some err, s', waits)
                | Some next \<Rightarrow> Retry_loop operation b (Suc k) s' (waits @ [next]))))"

definition Retry ::
  "(nat \<Rightarrow> 's \<Rightarrow> error option \<times> 's) \<Rightarrow> BackOff \<Rightarrow> 's \<Rightarrow> (error option \<times> 's \<times> Duration list) option" where
  "Retry operation b s = Retry_loop operation b 0 s []"

subsection \<open>Buffered channels\<close>

text \<open>
  \<^verbatim>\<open>make(chan T, n)\<close>: a capacity and the queue of buffered values. A send with no
  free slot and a receive on an empty buffer block; they are \<open>None\<close> here, and the
  caller says what blocking means for it (\<^verbatim>\<open>select\<close> with \<^verbatim>\<open>default\<close> goes on, a
  plain send waits for another goroutine). The hand-over of a value to a receiver
  that is already waiting is not a case of its own: every channel of the two files
  has a buffer, but for the concurrency guards when \<^verbatim>\<open>MaxConcurrentProvingJobs\<close>
  is 0, and a guard is received from only by goroutines that a send has let start.
\<close>

record 'a chan =
  chan_cap :: nat
  chan_buf :: "'a list"

definition make_chan :: "nat \<Rightarrow> 'a chan" where
  "make_chan n = \<lparr>chan_cap = n, chan_buf = []\<rparr>"

definition chan_len :: "'a chan \<Rightarrow> nat" where
  "chan_len c = length (chan_buf c)"

definition chan_send :: "'a chan \<Rightarrow> 'a \<Rightarrow> 'a chan option" where
  "chan_send c x =
     (if chan_len c < chan_cap c then Some (c\<lparr>chan_buf := chan_buf c @ [x]\<rparr>) else None)"

definition chan_recv :: "'a chan \<Rightarrow> ('a \<times> 'a chan) option" where
  "chan_recv c =
     (case chan_buf c of [] \<Rightarrow> None | x # xs \<Rightarrow> Some (x, c\<lparr>chan_buf := xs\<rparr>))"

section \<open>Data of the bindings and of the RPC client\<close>

text \<open>The fields of \<^verbatim>\<open>prover.Config\<close> that \<^verbatim>\<open>prover.go\<close> reads.\<close>

record Config =
  StartingBlockID :: "int option"
  Dummy :: bool
  OnlyProveEvenNumberBlocks :: bool
  OnlyProveOddNumberBlocks :: bool
  MaxConcurrentProvingJobs :: nat

text \<open>\<^verbatim>\<open>types.Log\<close>, the \<^verbatim>\<open>Raw\<close> field of an event: the fields the prover reads.\<close>

record Log =
  BlockNumber :: uint64
  BlockHash :: Hash
  TxIndex :: nat

text \<open>\<^verbatim>\<open>bindings.TaikoL1ClientBlockProposed\<close>: \<^verbatim>\<open>Id *big.Int\<close> and \<^verbatim>\<open>Raw\<close>.\<close>

record BlockProposed =
  proposed_Id :: int
  proposed_Raw :: Log

text \<open>\<^verbatim>\<open>bindings.TaikoL1ClientBlockVerified\<close>.\<close>

record BlockVerified =
  verified_Id :: int
  verified_BlockHash :: Hash
  verified_Raw :: Log

text \<open>The result of \<^verbatim>\<open>rpc.GetProtocolStateVariables\<close>.\<close>

record StateVariables =
  GenesisHeight :: uint64
  LatestVerifiedHeight :: uint64
  LatestVerifiedId :: uint64
  NextBlockId :: uint64

text \<open>\<^verbatim>\<open>rawdb.L1Origin\<close>: the L1 height and the L2 block hash of an L2 block.\<close>

record L1Origin =
  L1BlockHeight :: int
  L2BlockHash :: Hash

section \<open>The prover\<close>

text \<open>
  The state fields of \<^verbatim>\<open>Prover\<close>, its context and its channels. \<open>'p\<close> is
  \<^verbatim>\<open>*proofProducer.ProofWithHeader\<close>, which the prover only passes on.
\<close>

record 'p Prover =
  cfg :: Config
  latestVerifiedL1Height :: uint64
  lastHandledBlockID :: uint64
  l1Current :: uint64
  blockProposedCh :: "BlockProposed chan"
  blockVerifiedCh :: "BlockVerified chan"
  proveNotify :: "unit chan"
  proveValidProofCh :: "'p chan"
  proveInvalidProofCh :: "'p chan"
  proposeConcurrencyGuard :: "unit chan"
  submitProofConcurrencyGuard :: "unit chan"
  ctx :: Context

text \<open>
  The zero value of the struct, as \<^verbatim>\<open>new(Prover)\<close> gives it: the state fields are 0
  and the channels are \<^verbatim>\<open>nil\<close> (no slot: every send and receive blocks).
\<close>

definition new_Prover :: "'p Prover" where
  "new_Prover =
     \<lparr>cfg = \<lparr>StartingBlockID = None, Dummy = False, OnlyProveEvenNumberBlocks = False,
             OnlyProveOddNumberBlocks = False, MaxConcurrentProvingJobs = 0\<rparr>,
      latestVerifiedL1Height = 0, lastHandledBlockID = 0, l1Current = 0,
      blockProposedCh = make_chan 0, blockVerifiedCh = make_chan 0,
      proveNotify = make_chan 0, proveValidProofCh = make_chan 0,
      proveInvalidProofCh = make_chan 0, proposeConcurrencyGuard = make_chan 0,
      submitProofConcurrencyGuard = make_chan 0, ctx = None\<rparr>"

text \<open>
  The answers of the RPC client to the calls of \<^verbatim>\<open>initL1Current\<close>. One run makes each
  call at most once, so one answer per call (per argument) is general.
\<close>

record InitRpc =
  WaitTillL2Synced :: "Context \<Rightarrow> error option"
  GetProtocolStateVariables :: "error + StateVariables"
  L1OriginByID :: "Context \<Rightarrow> int \<Rightarrow> error + L1Origin"

text \<open>
  \<^verbatim>\<open>initL1Current\<close>, lines 423 to 429: the cursor is the L1 height of the L1Origin of
  the starting block.
\<close>

definition initL1Current_origin :: "InitRpc \<Rightarrow> 'p Prover \<Rightarrow> int \<Rightarrow> error option \<times> 'p Prover" where
  "initL1Current_origin rpc p startingBlockID =
     (case L1OriginByID rpc (ctx p) startingBlockID of
        Inl err \<Rightarrow> (Some err, p)
      | Inr latestVerifiedHeaderL1Origin \<Rightarrow>
          (None, p\<lparr>l1Current := Uint64 (L1BlockHeight latestVerifiedHeaderL1Origin)\<rparr>))"

text \<open>\<^verbatim>\<open>initL1Current\<close>: the returned error and the prover after the call.\<close>

definition initL1Current :: "InitRpc \<Rightarrow> 'p Prover \<Rightarrow> int option \<Rightarrow> error option \<times> 'p Prover" where
  "initL1Current rpc p startingBlockID =
     (case WaitTillL2Synced rpc (ctx p) of
        Some err \<Rightarrow> (Some err, p)
      | None \<Rightarrow>
          (case startingBlockID of
             None \<Rightarrow>
               (case GetProtocolStateVariables rpc of
                  Inl err \<Rightarrow> (Some err, p)
                | Inr stateVars \<Rightarrow>
                    if LatestVerifiedId stateVars = 0
                    then (None, p\<lparr>l1Current := GenesisHeight stateVars\<rparr>)
                    else initL1Current_origin rpc p (SetUint64 (LatestVerifiedId stateVars)))
           | Some blockID \<Rightarrow> initL1Current_origin rpc p blockID))"

subsection \<open>InitFromConfig\<close>

text \<open>
  What the outside answers during \<^verbatim>\<open>InitFromConfig\<close>: whether \<^verbatim>\<open>rpc.NewClient\<close>,
  \<^verbatim>\<open>TaikoL1.GetConfig\<close> and \<^verbatim>\<open>NewZkevmRpcdProducer\<close> fail, the RPC answers during
  the \<open>k\<close>-th attempt of \<^verbatim>\<open>initL1Current\<close>, and the exponential backoff. The
  context is taken as it is when the call starts.
\<close>

record InitEnv =
  NewClient :: "error option"
  GetConfig :: "error option"
  initRpc :: "nat \<Rightarrow> InitRpc"
  NewExponentialBackOff :: BackOff
  NewZkevmRpcdProducer :: "error option"

definition chBufferSize :: nat where
  "chBufferSize = 204800"

text \<open>
  \<^verbatim>\<open>InitFromConfig\<close>: the returned error and the prover, for the fields of the
  record. The error of the retried \<^verbatim>\<open>initL1Current\<close> is dropped, as in the source.
\<close>

definition InitFromConfig ::
  "InitEnv \<Rightarrow> Context \<Rightarrow> 'p Prover \<Rightarrow> Config \<Rightarrow> (error option \<times> 'p Prover) option" where
  "InitFromConfig env ctx0 p0 cfg0 =
     (let p1 = p0\<lparr>cfg := cfg0, ctx := ctx0\<rparr> in
      case NewClient env of
        Some err \<Rightarrow> Some (Some err, p1)
      | None \<Rightarrow>
          (case GetConfig env of
             Some err \<Rightarrow> Some (Some (Wrapped ''failed to get protocol configs'' err), p1)
           | None \<Rightarrow>
               (let p2 = p1\<lparr>blockProposedCh := make_chan chBufferSize,
                             blockVerifiedCh := make_chan chBufferSize,
                             proveValidProofCh := make_chan chBufferSize,
                             proveInvalidProofCh := make_chan chBufferSize,
                             proveNotify := make_chan 1\<rparr> in
                case Retry (\<lambda>k p. if ctx0 \<noteq> None then (None, p)
                                     else initL1Current (initRpc env k) p (StartingBlockID cfg0))
                       (NewExponentialBackOff env) p2 of
                  None \<Rightarrow> None
                | Some (_, p3, _) \<Rightarrow>
                    (case ctx0 of
                       Some err \<Rightarrow> Some (Some err, p3)
                     | None \<Rightarrow>
                         (let p4 = p3\<lparr>proposeConcurrencyGuard :=
                                          make_chan (MaxConcurrentProvingJobs cfg0),
                                        submitProofConcurrencyGuard :=
                                          make_chan (MaxConcurrentProvingJobs cfg0)\<rparr> in
                          if Dummy cfg0 then Some (None, p4)
                          else (case NewZkevmRpcdProducer env of
                                  Some err \<Rightarrow> Some (Some err, p4)
                                | None \<Rightarrow> Some (None, p4)))))))"

subsection \<open>onBlockProposed\<close>

text \<open>
  Lines 276 to 290 of \<^verbatim>\<open>onBlockProposed\<close>: the four early returns, in the order of
  the source, or going on to the dispatch.
\<close>

datatype verdict = EndIteration | AlreadyHandled | SkipOdd | SkipEven | Proceed

definition onBlockProposed_checks :: "'p Prover \<Rightarrow> BlockProposed \<Rightarrow> verdict" where
  "onBlockProposed_checks p event =
     (if chan_len (proveValidProofCh p) > 0 \<or> chan_len (proveInvalidProofCh p) > 0
      then EndIteration
      else if Uint64 (proposed_Id event) \<le> lastHandledBlockID p then AlreadyHandled
      else if OnlyProveEvenNumberBlocks (cfg p) \<and> Uint64 (proposed_Id event) mod 2 \<noteq> 0
      then SkipOdd
      else if OnlyProveOddNumberBlocks (cfg p) \<and> Uint64 (proposed_Id event) mod 2 = 0
      then SkipEven
      else Proceed)"

text \<open>
  Lines 338 to 341: the send on \<^verbatim>\<open>proposeConcurrencyGuard\<close>, then the two
  assignments. \<open>None\<close> when the guard has no free slot: the send blocks until a
  worker has received a token.
\<close>

definition onBlockProposed_acquire :: "'p Prover \<Rightarrow> BlockProposed \<Rightarrow> 'p Prover option" where
  "onBlockProposed_acquire p event =
     (case chan_send (proposeConcurrencyGuard p) () of
        None \<Rightarrow> None
      | Some guard \<Rightarrow>
          Some (p\<lparr>proposeConcurrencyGuard := guard,
                  l1Current := BlockNumber (proposed_Raw event),
                  lastHandledBlockID := Uint64 (proposed_Id event)\<rparr>))"

text \<open>
  What a call of \<^verbatim>\<open>onBlockProposed\<close> has done when it returns: the prover, the
  returned error, whether \<^verbatim>\<open>end()\<close> was invoked, and the event of the goroutine
  started at line 343, if one was.
\<close>

record 'p Returned =
  ret_prover :: "'p Prover"
  ret_err :: "error option"
  ret_end :: bool
  ret_go :: "BlockProposed option"

text \<open>
  \<^verbatim>\<open>onBlockProposed\<close>. \<open>None\<close>: the call is blocked at line 338.
\<close>

definition onBlockProposed :: "'p Prover \<Rightarrow> BlockProposed \<Rightarrow> 'p Returned option" where
  "onBlockProposed p event =
     (case onBlockProposed_checks p event of
        EndIteration \<Rightarrow>
          Some \<lparr>ret_prover = p, ret_err = None, ret_end = True, ret_go = None\<rparr>
      | Proceed \<Rightarrow>
          (case onBlockProposed_acquire p event of
             None \<Rightarrow> None
           | Some p' \<Rightarrow>
               Some \<lparr>ret_prover = p', ret_err = None, ret_end = False, ret_go = Some event\<rparr>)
      | _ \<Rightarrow> Some \<lparr>ret_prover = p, ret_err = None, ret_end = False, ret_go = None\<rparr>)"

subsection \<open>The worker of onBlockProposed\<close>

text \<open>
  What the outside answers to one run of \<^verbatim>\<open>handleBlockProposedEvent\<close>: the RPC
  reads, the transaction list validator (its hint and its error) and the two
  submitters' \<^verbatim>\<open>RequestProof\<close>. Of a header only \<^verbatim>\<open>Hash()\<close> is read, of a fork
  choice only \<^verbatim>\<open>Prover\<close>, of a transaction only \<^verbatim>\<open>Data()\<close>.
\<close>

datatype Hint = HintOK | HintInvalid

record WorkerEnv =
  worker_StateVariables :: "error + StateVariables"
  HeaderByNumber :: "Context \<Rightarrow> int \<Rightarrow> error + Hash"
  WaitL1Origin :: "Context \<Rightarrow> int \<Rightarrow> error + L1Origin"
  GetForkChoice :: "int \<Rightarrow> Hash \<Rightarrow> error + Address"
  TransactionInBlock :: "Context \<Rightarrow> Hash \<Rightarrow> nat \<Rightarrow> error + 8 word list"
  ValidateTxList :: "int \<Rightarrow> 8 word list \<Rightarrow> Hint \<times> error option"
  valid_RequestProof :: "Context \<Rightarrow> BlockProposed \<Rightarrow> error option"
  invalid_RequestProof :: "Context \<Rightarrow> BlockProposed \<Rightarrow> error option"

definition isBlockVerified :: "WorkerEnv \<Rightarrow> int \<Rightarrow> error + bool" where
  "isBlockVerified env blockID =
     (case worker_StateVariables env of
        Inl err \<Rightarrow> Inl err
      | Inr stateVars \<Rightarrow> Inr (Uint64 blockID \<le> LatestVerifiedId stateVars))"

definition NeedNewProof :: "WorkerEnv \<Rightarrow> Context \<Rightarrow> int \<Rightarrow> error + bool" where
  "NeedNewProof env pctx blockID =
     (case (if blockID = 1 then HeaderByNumber env pctx 0
            else (case WaitL1Origin env pctx (blockID - 1) of
                    Inl err \<Rightarrow> Inl err
                  | Inr parentL1Origin \<Rightarrow> Inr (L2BlockHash parentL1Origin))) of
        Inl err \<Rightarrow> Inl err
      | Inr parentHash \<Rightarrow>
          (case GetForkChoice env blockID parentHash of
             Inl err \<Rightarrow> Inl err
           | Inr fcProver \<Rightarrow> if fcProver \<noteq> 0 then Inr False else Inr True))"

text \<open>
  \<^verbatim>\<open>handleBlockProposedEvent\<close>, lines 298 to 335 (the deferred receive of line 296
  is a step of its own below): the returned error, and which submitter's
  \<^verbatim>\<open>RequestProof\<close> was invoked, if one was.
\<close>

datatype Request = RequestValid | RequestInvalid

definition handleBlockProposedEvent ::
  "WorkerEnv \<Rightarrow> Context \<Rightarrow> Context \<Rightarrow> BlockProposed \<Rightarrow> error option \<times> Request option" where
  "handleBlockProposedEvent env pctx cctx event =
     (case isBlockVerified env (proposed_Id event) of
        Inl err \<Rightarrow> (Some err, None)
      | Inr isVerified \<Rightarrow>
          if isVerified then (None, None)
          else
            (case NeedNewProof env pctx (proposed_Id event) of
               Inl err \<Rightarrow>
                 (Some (Wrapped ''failed to check whether the L2 block needs a new proof'' err),
                  None)
             | Inr needNewProof \<Rightarrow>
                 if \<not> needNewProof then (None, None)
                 else
                   (case TransactionInBlock env cctx (BlockHash (proposed_Raw event))
                           (TxIndex (proposed_Raw event)) of
                      Inl err \<Rightarrow> (Some err, None)
                    | Inr txData \<Rightarrow>
                        (case ValidateTxList env (proposed_Id event) txData of
                           (hint, Some err) \<Rightarrow> (Some err, None)
                         | (hint, None) \<Rightarrow>
                             if hint = HintOK
                             then (valid_RequestProof env cctx event, Some RequestValid)
                             else (invalid_RequestProof env cctx event, Some RequestInvalid)))))"

subsection \<open>submitProofOp\<close>

text \<open>
  Line 354: the send on \<^verbatim>\<open>submitProofConcurrencyGuard\<close>. \<open>None\<close> when the guard
  has no free slot.
\<close>

definition submitProofOp_acquire :: "'p Prover \<Rightarrow> 'p Prover option" where
  "submitProofOp_acquire p =
     (case chan_send (submitProofConcurrencyGuard p) () of
        None \<Rightarrow> None
      | Some guard \<Rightarrow> Some (p\<lparr>submitProofConcurrencyGuard := guard\<rparr>))"

text \<open>
  The answers of the two submitters' \<^verbatim>\<open>SubmitProof\<close>: for the valid one, which the
  retry loop may call many times, the answer to the \<open>k\<close>-th call. The arguments are
  the context, the proof and the oracle flag.
\<close>

record 'p SubmitEnv =
  valid_SubmitProof :: "nat \<Rightarrow> Context \<Rightarrow> 'p \<Rightarrow> bool \<Rightarrow> error option"
  invalid_SubmitProof :: "Context \<Rightarrow> 'p \<Rightarrow> bool \<Rightarrow> error option"

text \<open>
  The goroutine of \<^verbatim>\<open>submitProofOp\<close>, lines 358 to 379 (the deferred receive of
  line 356 is a step of its own below): the error that is logged, the number of
  calls of \<^verbatim>\<open>SubmitProof\<close> and the waits between them. \<open>None\<close>: the goroutine
  never gets out of the retry loop.
\<close>

definition submitProofOp_task ::
  "'p SubmitEnv \<Rightarrow> 'p Prover \<Rightarrow> 'p \<Rightarrow> bool \<Rightarrow> (error option \<times> nat \<times> Duration list) option" where
  "submitProofOp_task env p proofWithHeader isValidProof =
     (if isValidProof
      then
        (if Dummy (cfg p)
         then Retry (\<lambda>k calls. (valid_SubmitProof env k (ctx p) proofWithHeader True, Suc calls))
                (NewConstantBackOff (12 * Second)) 0
         else Some (valid_SubmitProof env 0 (ctx p) proofWithHeader False, 1, []))
      else Some (invalid_SubmitProof env (ctx p) proofWithHeader False, 1, []))"

subsection \<open>The event loop and the goroutines around it\<close>

text \<open>\<^verbatim>\<open>reqProving\<close>: a send that does nothing when the channel has no free slot.\<close>

definition reqProving :: "'p Prover \<Rightarrow> 'p Prover" where
  "reqProving p =
     (case chan_send (proveNotify p) () of
        Some notify \<Rightarrow> p\<lparr>proveNotify := notify\<rparr>
      | None \<Rightarrow> p)"

text \<open>\<^verbatim>\<open>onBlockVerified\<close>: both branches return \<^verbatim>\<open>nil\<close>; they differ in the log line.\<close>

definition onBlockVerified :: "'p Prover \<Rightarrow> BlockVerified \<Rightarrow> error option \<times> 'p Prover" where
  "onBlockVerified p event =
     (let p' = p\<lparr>latestVerifiedL1Height := BlockNumber (verified_Raw event)\<rparr> in
      if verified_BlockHash event = 0 then (None, p') else (None, p'))"

text \<open>
  The prover's goroutines as a transition system. The state is the prover, where the
  event loop stands, the goroutines started at line 343 that have not yet run the
  deferred receive of line 296 (\<open>proving\<close>), the goroutines started at line 355 that
  have not yet run the deferred receive of line 356 (\<open>submitting\<close>), the history of
  the events for which line 343 started a goroutine, oldest first (\<open>dispatched\<close>),
  and the history of the events for which a worker has invoked a submitter's
  \<^verbatim>\<open>RequestProof\<close>, in the order of the invocations (\<open>requested\<close>).

  The event loop is a single goroutine. It is \<open>Running\<close>, or blocked in the send of
  line 338 for an event, or blocked in the send of line 354 for a proof.
\<close>

datatype 'p Site = Running | AtProposeGuard BlockProposed | AtSubmitGuard 'p bool

record 'p System =
  prover :: "'p Prover"
  loop :: "'p Site"
  proving :: "BlockProposed list"
  submitting :: "('p \<times> bool) list"
  dispatched :: "BlockProposed list"
  requested :: "BlockProposed list"

text \<open>
  The steps. Those of the event loop need it \<open>Running\<close>, the two \<open>Unblock\<close> steps
  apart:
  \<^item> \<open>Call event\<close>: the iterator of \<^verbatim>\<open>proveOp\<close> calls \<^verbatim>\<open>onBlockProposed\<close> (any event,
    at any time: more than an iterator does);
  \<^item> \<open>UnblockPropose\<close>: the send of line 338 goes through, lines 340 to 349 follow;
  \<^item> \<open>WorkerRequest k env\<close>: the \<open>k\<close>-th running worker, given the answers \<open>env\<close>,
    gets to line 331 or to line 335 and invokes \<^verbatim>\<open>RequestProof\<close> (a worker does so at
    most once);
  \<^item> \<open>WorkerDone k\<close>: the \<open>k\<close>-th running worker runs its deferred receive (line 296);
  \<^item> \<open>SelectProof valid\<close>: lines 227 to 230, a proof is received and
    \<^verbatim>\<open>submitProofOp\<close> is called;
  \<^item> \<open>UnblockSubmit\<close>: the send of line 354 goes through, line 355 follows;
  \<^item> \<open>SubmitDone k\<close>: the \<open>k\<close>-th submission goroutine runs its deferred receive
    (line 356);
  \<^item> \<open>SelectNotify\<close>: line 231, the token of \<^verbatim>\<open>proveNotify\<close> is received;
  \<^item> \<open>SelectBlockProposed\<close>: lines 235 and 236; \<open>SelectBlockVerified\<close>: lines 237
    and 238; \<open>ForceProving\<close>: lines 241 and 242, and the call of line 204;
  \<^item> \<open>ProofProduced valid proof\<close>: a submitter puts a proof in its result channel;
    \<open>EmitProposed\<close>, \<open>EmitVerified\<close>: a subscription puts an event in its channel.
  A step that is blocked or not possible in the state is \<open>None\<close>.
\<close>

datatype 'p Action =
    Call BlockProposed
  | UnblockPropose
  | WorkerRequest nat WorkerEnv
  | WorkerDone nat
  | SelectProof bool
  | UnblockSubmit
  | SubmitDone nat
  | SelectNotify
  | SelectBlockProposed
  | SelectBlockVerified
  | ForceProving
  | ProofProduced bool 'p
  | EmitProposed BlockProposed
  | EmitVerified BlockVerified

definition drop_nth :: "nat \<Rightarrow> 'a list \<Rightarrow> 'a list" where
  "drop_nth k xs = take k xs @ drop (Suc k) xs"

definition spawn_submit :: "'p System \<Rightarrow> 'p \<Rightarrow> bool \<Rightarrow> 'p System" where
  "spawn_submit s proofWithHeader isValidProof =
     (case submitProofOp_acquire (prover s) of
        None \<Rightarrow> s\<lparr>loop := AtSubmitGuard proofWithHeader isValidProof\<rparr>
      | Some p' \<Rightarrow>
          s\<lparr>prover := p', loop := Running,
            submitting := submitting s @ [(proofWithHeader, isValidProof)]\<rparr>)"

fun step :: "'p System \<Rightarrow> 'p Action \<Rightarrow> 'p System option" where
  "step s (Call event) =
     (if loop s \<noteq> Running then None
      else case onBlockProposed (prover s) event of
             None \<Rightarrow> Some (s\<lparr>loop := AtProposeGuard event\<rparr>)
           | Some r \<Rightarrow>
               (case ret_go r of
                  None \<Rightarrow> Some (s\<lparr>prover := ret_prover r\<rparr>)
                | Some ev \<Rightarrow>
                    Some (s\<lparr>prover := ret_prover r, proving := proving s @ [ev],
                            dispatched := dispatched s @ [ev]\<rparr>)))"
| "step s UnblockPropose =
     (case loop s of
        AtProposeGuard event \<Rightarrow>
          (case onBlockProposed_acquire (prover s) event of
             None \<Rightarrow> None
           | Some p' \<Rightarrow>
               Some (s\<lparr>prover := p', loop := Running, proving := proving s @ [event],
                       dispatched := dispatched s @ [event]\<rparr>))
      | _ \<Rightarrow> None)"
| "step s (WorkerRequest k env) =
     (if k < length (proving s) \<and> proving s ! k \<notin> set (requested s)
      then (case snd (handleBlockProposedEvent env (ctx (prover s)) (ctx (prover s))
                        (proving s ! k)) of
              None \<Rightarrow> None
            | Some request \<Rightarrow> Some (s\<lparr>requested := requested s @ [proving s ! k]\<rparr>))
      else None)"
| "step s (WorkerDone k) =
     (if k < length (proving s)
      then (case chan_recv (proposeConcurrencyGuard (prover s)) of
              None \<Rightarrow> None
            | Some (_, guard) \<Rightarrow>
                Some (s\<lparr>prover := (prover s)\<lparr>proposeConcurrencyGuard := guard\<rparr>,
                        proving := drop_nth k (proving s)\<rparr>))
      else None)"
| "step s (SelectProof isValidProof) =
     (if loop s \<noteq> Running then None
      else if isValidProof
      then (case chan_recv (proveValidProofCh (prover s)) of
              None \<Rightarrow> None
            | Some (proofWithHeader, ch) \<Rightarrow>
                Some (spawn_submit (s\<lparr>prover := (prover s)\<lparr>proveValidProofCh := ch\<rparr>\<rparr>)
                        proofWithHeader True))
      else (case chan_recv (proveInvalidProofCh (prover s)) of
              None \<Rightarrow> None
            | Some (proofWithHeader, ch) \<Rightarrow>
                Some (spawn_submit (s\<lparr>prover := (prover s)\<lparr>proveInvalidProofCh := ch\<rparr>\<rparr>)
                        proofWithHeader False)))"
| "step s UnblockSubmit =
     (case loop s of
        AtSubmitGuard proofWithHeader isValidProof \<Rightarrow>
          (case submitProofOp_acquire (prover s) of
             None \<Rightarrow> None
           | Some p' \<Rightarrow>
               Some (s\<lparr>prover := p', loop := Running,
                       submitting := submitting s @ [(proofWithHeader, isValidProof)]\<rparr>))
      | _ \<Rightarrow> None)"
| "step s (SubmitDone k) =
     (if k < length (submitting s)
      then (case chan_recv (submitProofConcurrencyGuard (prover s)) of
              None \<Rightarrow> None
            | Some (_, guard) \<Rightarrow>
                Some (s\<lparr>prover := (prover s)\<lparr>submitProofConcurrencyGuard := guard\<rparr>,
                        submitting := drop_nth k (submitting s)\<rparr>))
      else None)"
| "step s SelectNotify =
     (if loop s \<noteq> Running then None
      else case chan_recv (proveNotify (prover s)) of
             None \<Rightarrow> None
           | Some (_, notify) \<Rightarrow> Some (s\<lparr>prover := (prover s)\<lparr>proveNotify := notify\<rparr>\<rparr>))"
| "step s SelectBlockProposed =
     (if loop s \<noteq> Running then None
      else case chan_recv (blockProposedCh (prover s)) of
             None \<Rightarrow> None
           | Some (_, ch) \<Rightarrow>
               Some (s\<lparr>prover := reqProving ((prover s)\<lparr>blockProposedCh := ch\<rparr>)\<rparr>))"
| "step s SelectBlockVerified =
     (if loop s \<noteq> Running then None
      else case chan_recv (blockVerifiedCh (prover s)) of
             None \<Rightarrow> None
           | Some (e, ch) \<Rightarrow>
               Some (s\<lparr>prover := snd (onBlockVerified ((prover s)\<lparr>blockVerifiedCh := ch\<rparr>) e)\<rparr>))"
| "step s ForceProving =
     (if loop s \<noteq> Running then None else Some (s\<lparr>prover := reqProving (prover s)\<rparr>))"
| "step s (ProofProduced isValidProof proofWithHeader) =
     (if isValidProof
      then (case chan_send (proveValidProofCh (prover s)) proofWithHeader of
              None \<Rightarrow> None
            | Some ch \<Rightarrow> Some (s\<lparr>prover := (prover s)\<lparr>proveValidProofCh := ch\<rparr>\<rparr>))
      else (case chan_send (proveInvalidProofCh (prover s)) proofWithHeader of
              None \<Rightarrow> None
            | Some ch \<Rightarrow> Some (s\<lparr>prover := (prover s)\<lparr>proveInvalidProofCh := ch\<rparr>\<rparr>)))"
| "step s (EmitProposed event) =
     (case chan_send (blockProposedCh (prover s)) event of
        None \<Rightarrow> None
      | Some ch \<Rightarrow> Some (s\<lparr>prover := (prover s)\<lparr>blockProposedCh := ch\<rparr>\<rparr>))"
| "step s (EmitVerified event) =
     (case chan_send (blockVerifiedCh (prover s)) event of
        None \<Rightarrow> None
      | Some ch \<Rightarrow> Some (s\<lparr>prover := (prover s)\<lparr>blockVerifiedCh := ch\<rparr>\<rparr>))"

text \<open>A schedule is run step by step; it is \<open>None\<close> when one of its steps is.\<close>

fun run :: "'p System \<Rightarrow> 'p Action list \<Rightarrow> 'p System option" where
  "run s [] = Some s"
| "run s (a # as) = (case step s a of None \<Rightarrow> None | Some s' \<Rightarrow> run s' as)"

text \<open>\<^verbatim>\<open>Start\<close>: the event loop begins, with no worker yet.\<close>

definition Start :: "'p Prover \<Rightarrow> 'p System" where
  "Start p =
     \<lparr>prover = p, loop = Running, proving = [], submitting = [], dispatched = [],
      requested = []\<rparr>"

subsection \<open>proveOp and the event iterator\<close>




section \<open>The driver\<close>

text \<open>
  The channels and the context of \<^verbatim>\<open>Driver\<close>. \<open>'h\<close> is \<^verbatim>\<open>*types.Header\<close>, which the
  event loop receives and drops.
\<close>

record 'h Driver =
  l1HeadCh :: "'h chan"
  syncNotify :: "unit chan"
  driver_ctx :: Context

text \<open>
  What the outside answers during the driver's \<^verbatim>\<open>InitFromConfig\<close>: whether
  \<^verbatim>\<open>rpc.NewClient\<close>, \<^verbatim>\<open>state.New\<close> and \<^verbatim>\<open>chainSyncer.New\<close> fail, the peer count, and
  what \<^verbatim>\<open>encoding.TryParsingCustomError\<close> makes of an error.
\<close>

record DriverInitEnv =
  rpc_NewClient :: "error option"
  TryParsingCustomError :: "error \<Rightarrow> error"
  state_New :: "error option"
  PeerCount :: "error + uint64"
  chainSyncer_New :: "error option"

definition driver_InitFromConfig ::
  "DriverInitEnv \<Rightarrow> Context \<Rightarrow> 'h Driver \<Rightarrow> error option \<times> 'h Driver" where
  "driver_InitFromConfig env ctx0 d0 =
     (let d1 = d0\<lparr>l1HeadCh := make_chan 1024, syncNotify := make_chan 1, driver_ctx := ctx0\<rparr> in
      case rpc_NewClient env of
        Some err \<Rightarrow> (Some (TryParsingCustomError env err), d1)
      | None \<Rightarrow>
          (case state_New env of
             Some err \<Rightarrow> (Some err, d1)
           | None \<Rightarrow>
               (case PeerCount env of
                  Inl err \<Rightarrow> (Some err, d1)
                | Inr peers \<Rightarrow>
                    (case chainSyncer_New env of
                       Some err \<Rightarrow> (Some err, d1)
                     | None \<Rightarrow> (None, d1)))))"

text \<open>\<^verbatim>\<open>reqSync\<close>: a send that does nothing when the channel has no free slot.\<close>

definition reqSync :: "'h Driver \<Rightarrow> 'h Driver" where
  "reqSync d =
     (case chan_send (syncNotify d) () of
        Some notify \<Rightarrow> d\<lparr>syncNotify := notify\<rparr>
      | None \<Rightarrow> d)"

text \<open>
  \<^verbatim>\<open>doSync\<close>, given what \<^verbatim>\<open>l2ChainSyncer.Sync\<close> returns: \<^verbatim>\<open>nil\<close> at once when the
  context is done.
\<close>

definition doSync :: "'h Driver \<Rightarrow> error option \<Rightarrow> error option" where
  "doSync d syncResult = (if driver_ctx d \<noteq> None then None else syncResult)"

text \<open>
  \<^verbatim>\<open>doSyncWithBackoff\<close>, given the result of \<^verbatim>\<open>Sync\<close> at each attempt and the
  exponential backoff: the error that is logged and the waits.
\<close>

definition doSyncWithBackoff ::
  "'h Driver \<Rightarrow> (nat \<Rightarrow> error option) \<Rightarrow> BackOff \<Rightarrow> (error option \<times> Duration list) option" where
  "doSyncWithBackoff d syncResult exponentialBackoff =
     map_option (\<lambda>(err, _, waits). (err, waits))
       (Retry (\<lambda>k u. (doSync d (syncResult k), u)) exponentialBackoff ())"

text \<open>
  The event loop of the driver as a transition system. The state is the driver and
  whether the loop is inside \<^verbatim>\<open>doSyncWithBackoff\<close> (called at line 194 and at
  line 201), which touches no channel. The steps:
  \<^item> \<open>FeedL1Head h\<close>: the feed puts a header in \<^verbatim>\<open>l1HeadCh\<close>, at any time, also
    while a synchronisation is in progress;
  \<^item> \<open>SelectL1Head\<close>: lines 202 and 203, the loop, at its \<^verbatim>\<open>select\<close>, receives a
    header and calls \<^verbatim>\<open>reqSync\<close>;
  \<^item> \<open>SelectSyncNotify\<close>: lines 200 and 201, the loop, at its \<^verbatim>\<open>select\<close>, receives
    the token and calls \<^verbatim>\<open>doSyncWithBackoff\<close>;
  \<^item> \<open>SyncReturns\<close>: \<^verbatim>\<open>doSyncWithBackoff\<close> returns and the loop is at its
    \<^verbatim>\<open>select\<close> again.
  When both channels hold something, \<^verbatim>\<open>select\<close> takes either. A step that is
  blocked or not possible in the state is \<open>None\<close>.
\<close>

datatype 'h DriverAction = FeedL1Head 'h | SelectL1Head | SelectSyncNotify | SyncReturns

record 'h DriverSystem =
  driver :: "'h Driver"
  syncing :: bool

fun driver_step :: "'h DriverSystem \<Rightarrow> 'h DriverAction \<Rightarrow> 'h DriverSystem option" where
  "driver_step s (FeedL1Head h) =
     (case chan_send (l1HeadCh (driver s)) h of
        None \<Rightarrow> None
      | Some ch \<Rightarrow> Some (s\<lparr>driver := (driver s)\<lparr>l1HeadCh := ch\<rparr>\<rparr>))"
| "driver_step s SelectL1Head =
     (if syncing s then None
      else case chan_recv (l1HeadCh (driver s)) of
             None \<Rightarrow> None
           | Some (_, ch) \<Rightarrow> Some (s\<lparr>driver := reqSync ((driver s)\<lparr>l1HeadCh := ch\<rparr>)\<rparr>))"
| "driver_step s SelectSyncNotify =
     (if syncing s then None
      else case chan_recv (syncNotify (driver s)) of
             None \<Rightarrow> None
           | Some (_, notify) \<Rightarrow>
               Some (s\<lparr>driver := (driver s)\<lparr>syncNotify := notify\<rparr>, syncing := True\<rparr>))"
| "driver_step s SyncReturns =
     (if syncing s then Some (s\<lparr>syncing := False\<rparr>) else None)"

fun driver_run :: "'h DriverSystem \<Rightarrow> 'h DriverAction list \<Rightarrow> 'h DriverSystem option" where
  "driver_run s [] = Some s"
| "driver_run s (a # as) = (case driver_step s a of None \<Rightarrow> None | Some s' \<Rightarrow> driver_run s' as)"

text \<open>
  \<^verbatim>\<open>driver_Start\<close>: the event loop begins with the call of \<^verbatim>\<open>doSyncWithBackoff\<close> of
  line 194.
\<close>

definition driver_Start :: "'h Driver \<Rightarrow> 'h DriverSystem" where
  "driver_Start d = \<lparr>driver = d, syncing = True\<rparr>"

subsection \<open>reportProtocolStatus\<close>

definition RetryDelay :: Duration where
  "RetryDelay = 10 * Second"

text \<open>The key-value pairs of the log record "Protocol status".\<close>

record ProtocolStatus =
  status_latestVerifiedId :: uint64
  status_latestVerifiedHeight :: uint64
  status_pendingBlocks :: uint64
  status_availableSlots :: uint64

definition protocolStatus :: "uint64 \<Rightarrow> StateVariables \<Rightarrow> ProtocolStatus" where
  "protocolStatus maxNumBlocks vars =
     \<lparr>status_latestVerifiedId = LatestVerifiedId vars,
      status_latestVerifiedHeight = LatestVerifiedHeight vars,
      status_pendingBlocks = NextBlockId vars - LatestVerifiedId vars - 1,
      status_availableSlots = LatestVerifiedId vars + maxNumBlocks - NextBlockId vars\<rparr>"

text \<open>A line of the log: an error, or the protocol status.\<close>

datatype LogLine = LogError string error | LogStatus ProtocolStatus

text \<open>
  \<^verbatim>\<open>reportProtocolStatus\<close>, given the answer of \<^verbatim>\<open>TaikoL1.GetConfig\<close> to the \<open>k\<close>-th
  call (of the configuration only \<^verbatim>\<open>MaxNumBlocks\<close>, a \<^verbatim>\<open>*big.Int\<close>, is read) and the
  answers of \<^verbatim>\<open>GetProtocolStateVariables\<close> at the ticks of the 30-second ticker that
  come before the context is done: the lines it logs. \<open>None\<close>: the retry loop of
  \<^verbatim>\<open>GetConfig\<close> never returns.
\<close>

definition reportProtocolStatus ::
  "(nat \<Rightarrow> error + int) \<Rightarrow> (error + StateVariables) list \<Rightarrow> LogLine list option" where
  "reportProtocolStatus GetConfig_MaxNumBlocks ticks =
     (case Retry (\<lambda>k maxNumBlocks.
                    case GetConfig_MaxNumBlocks k of
                      Inl err \<Rightarrow> (Some err, maxNumBlocks)
                    | Inr configs_MaxNumBlocks \<Rightarrow> (None, Uint64 configs_MaxNumBlocks))
             (NewConstantBackOff RetryDelay) 0 of
        None \<Rightarrow> None
      | Some (Some err, _, _) \<Rightarrow>
          Some [LogError ''Failed to get protocol state variables'' err]
      | Some (None, maxNumBlocks, _) \<Rightarrow>
          Some (map (\<lambda>tick. case tick of
                               Inl err \<Rightarrow> LogError ''Failed to get protocol state variables'' err
                             | Inr vars \<Rightarrow> LogStatus (protocolStatus maxNumBlocks vars))
                  ticks))"

section \<open>Invariants and example values\<close>

text \<open>
  The invariant behind the order of dispatch: every dispatched id is at most
  \<^verbatim>\<open>lastHandledBlockID\<close>, the dispatched ids increase, an event the loop is
  blocked on has passed the test of line 280, and the workers and the invocations of
  \<^verbatim>\<open>RequestProof\<close> are for dispatched events.
\<close>

definition dispatch_inv :: "'p System \<Rightarrow> bool" where
  "dispatch_inv s =
     ((\<forall>e \<in> set (dispatched s). Uint64 (proposed_Id e) \<le> lastHandledBlockID (prover s))
      \<and> sorted_wrt (<) (map (\<lambda>e. Uint64 (proposed_Id e)) (dispatched s))
      \<and> (\<forall>e. loop s = AtProposeGuard e \<longrightarrow>
             lastHandledBlockID (prover s) < Uint64 (proposed_Id e))
      \<and> set (proving s) \<subseteq> set (dispatched s)
      \<and> set (requested s) \<subseteq> set (dispatched s))"

text \<open>
  The invariant behind the order of the invocations when at most one worker runs: the
  ids \<^verbatim>\<open>RequestProof\<close> was invoked for increase, and a running worker that has not
  invoked it yet has a greater id than all of them.
\<close>

definition order_inv :: "'p System \<Rightarrow> bool" where
  "order_inv s =
     (sorted_wrt (<) (map (\<lambda>e. Uint64 (proposed_Id e)) (requested s))
      \<and> (\<forall>r \<in> set (requested s). \<forall>e \<in> set (proving s).
             e \<notin> set (requested s) \<longrightarrow> Uint64 (proposed_Id r) < Uint64 (proposed_Id e)))"

text \<open>An event with the given id and L1 block number, for the examples.\<close>

definition proposed :: "int \<Rightarrow> uint64 \<Rightarrow> BlockProposed" where
  "proposed blockID height =
     \<lparr>proposed_Id = blockID,
      proposed_Raw = \<lparr>BlockNumber = height, BlockHash = 0, TxIndex = 0\<rparr>\<rparr>"

text \<open>
  The invariant behind the parity filter: the configuration does not change, and
  every event that was dispatched, that a worker holds, that \<^verbatim>\<open>RequestProof\<close> was
  invoked for or that the loop is blocked on has passed the tests of lines 283 and
  287.
\<close>

definition parity_ok :: "Config \<Rightarrow> BlockProposed \<Rightarrow> bool" where
  "parity_ok c e =
     ((OnlyProveEvenNumberBlocks c \<longrightarrow> even (proposed_Id e))
      \<and> (OnlyProveOddNumberBlocks c \<longrightarrow> odd (proposed_Id e)))"

definition parity_inv :: "Config \<Rightarrow> 'p System \<Rightarrow> bool" where
  "parity_inv c s =
     (cfg (prover s) = c
      \<and> (\<forall>e \<in> set (dispatched s). parity_ok c e)
      \<and> (\<forall>e \<in> set (proving s). parity_ok c e)
      \<and> (\<forall>e \<in> set (requested s). parity_ok c e)
      \<and> (\<forall>e. loop s = AtProposeGuard e \<longrightarrow> parity_ok c e))"

text \<open>
  The invariant behind the concurrency guards: each guard holds one token for each
  running goroutine of its kind, and no more tokens than its capacity.
\<close>

definition guard_inv :: "'p System \<Rightarrow> bool" where
  "guard_inv s =
     (length (proving s) = chan_len (proposeConcurrencyGuard (prover s))
      \<and> chan_len (proposeConcurrencyGuard (prover s))
            \<le> chan_cap (proposeConcurrencyGuard (prover s))
      \<and> length (submitting s) = chan_len (submitProofConcurrencyGuard (prover s))
      \<and> chan_len (submitProofConcurrencyGuard (prover s))
            \<le> chan_cap (submitProofConcurrencyGuard (prover s)))"

definition bounded_inv :: "nat \<Rightarrow> 'p System \<Rightarrow> bool" where
  "bounded_inv n s =
     (guard_inv s \<and> chan_cap (proposeConcurrencyGuard (prover s)) = n
      \<and> chan_cap (submitProofConcurrencyGuard (prover s)) = n)"

text \<open>
  The invariant of \<^verbatim>\<open>proveNotify\<close>: one slot, so at most one pending token.
\<close>

definition notify_inv :: "'p System \<Rightarrow> bool" where
  "notify_inv s =
     (chan_cap (proveNotify (prover s)) = 1 \<and> chan_len (proveNotify (prover s)) \<le> 1)"

text \<open>The invariant of \<^verbatim>\<open>syncNotify\<close>: one slot, so at most one pending token.\<close>

definition sync_inv :: "'h Driver \<Rightarrow> bool" where
  "sync_inv d = (chan_cap (syncNotify d) = 1 \<and> chan_len (syncNotify d) \<le> 1)"

text \<open>
  Example values: a configuration with no flag set and the given number of jobs; a
  prover made ready by hand, with that configuration, a guard of that capacity and
  the given last handled id; the same with \<^verbatim>\<open>OnlyProveEvenNumberBlocks\<close> set and the
  given cursor; an outside in which \<^verbatim>\<open>InitFromConfig\<close> succeeds at once, with no
  verified block yet and the genesis at L1 height 100; the same for the driver, and
  the zero value of the driver; an outside in which a worker gets to invoke the
  valid submitter's \<^verbatim>\<open>RequestProof\<close>; submitters whose \<^verbatim>\<open>SubmitProof\<close> returns
  the error of its context.
\<close>

definition example_Config :: "nat \<Rightarrow> Config" where
  "example_Config jobs =
     \<lparr>StartingBlockID = None, Dummy = False, OnlyProveEvenNumberBlocks = False,
      OnlyProveOddNumberBlocks = False, MaxConcurrentProvingJobs = jobs\<rparr>"

definition example_Prover :: "nat \<Rightarrow> uint64 \<Rightarrow> unit Prover" where
  "example_Prover jobs lastHandled =
     new_Prover\<lparr>cfg := example_Config jobs, proposeConcurrencyGuard := make_chan jobs,
                lastHandledBlockID := lastHandled\<rparr>"

definition even_Prover :: "nat \<Rightarrow> uint64 \<Rightarrow> unit Prover" where
  "even_Prover jobs height =
     new_Prover\<lparr>cfg := (example_Config jobs)\<lparr>OnlyProveEvenNumberBlocks := True\<rparr>,
                proposeConcurrencyGuard := make_chan jobs, l1Current := height\<rparr>"

definition example_InitEnv :: InitEnv where
  "example_InitEnv =
     \<lparr>NewClient = None, GetConfig = None,
      initRpc = (\<lambda>k. \<lparr>WaitTillL2Synced = (\<lambda>c. None),
                        GetProtocolStateVariables =
                          Inr \<lparr>GenesisHeight = 100, LatestVerifiedHeight = 0,
                               LatestVerifiedId = 0, NextBlockId = 1\<rparr>,
                        L1OriginByID = (\<lambda>c i. Inl (Error ''not found''))\<rparr>),
      NewExponentialBackOff = (\<lambda>k. None),
      NewZkevmRpcdProducer = None\<rparr>"

definition example_DriverInitEnv :: DriverInitEnv where
  "example_DriverInitEnv =
     \<lparr>rpc_NewClient = None, TryParsingCustomError = (\<lambda>e. e), state_New = None,
      PeerCount = Inr 0, chainSyncer_New = None\<rparr>"

definition new_Driver :: "'h Driver" where
  "new_Driver = \<lparr>l1HeadCh = make_chan 0, syncNotify = make_chan 0, driver_ctx = None\<rparr>"

definition example_WorkerEnv :: WorkerEnv where
  "example_WorkerEnv =
     \<lparr>worker_StateVariables =
        Inr \<lparr>GenesisHeight = 100, LatestVerifiedHeight = 0, LatestVerifiedId = 0,
             NextBlockId = 1\<rparr>,
      HeaderByNumber = (\<lambda>c n. Inr 0),
      WaitL1Origin = (\<lambda>c i. Inr \<lparr>L1BlockHeight = 100, L2BlockHash = 0\<rparr>),
      GetForkChoice = (\<lambda>i h. Inr 0),
      TransactionInBlock = (\<lambda>c h i. Inr []),
      ValidateTxList = (\<lambda>i d. (HintOK, None)),
      valid_RequestProof = (\<lambda>c e. None),
      invalid_RequestProof = (\<lambda>c e. None)\<rparr>"

definition example_SubmitEnv :: "unit SubmitEnv" where
  "example_SubmitEnv =
     \<lparr>valid_SubmitProof = (\<lambda>k c w oracle. if c = None then None else c),
      invalid_SubmitProof = (\<lambda>c w oracle. c)\<rparr>"

text \<open>
  Two schedules in which three triggers arrive while an operation is in progress.
  The prover: the request of line 204, its token is received and \<^verbatim>\<open>proveOp\<close>
  runs; meanwhile three events arrive; then the loop receives an event, the token,
  an event, the token, an event, the token (the calls of \<^verbatim>\<open>onBlockProposed\<close> that
  the passes make are left out: they do not touch these channels). The driver:
  three headers arrive during the synchronisation of line 194; it returns; then the
  loop receives a header and the token, and synchronises, three times.
\<close>

definition three_events_schedule :: "unit Action list" where
  "three_events_schedule =
     [ForceProving, SelectNotify,
      EmitProposed (proposed 9 41), EmitProposed (proposed 10 41), EmitProposed (proposed 11 41),
      SelectBlockProposed, SelectNotify, SelectBlockProposed, SelectNotify,
      SelectBlockProposed, SelectNotify]"

definition three_heads_schedule :: "unit DriverAction list" where
  "three_heads_schedule =
     [FeedL1Head (), FeedL1Head (), FeedL1Head (), SyncReturns,
      SelectL1Head, SelectSyncNotify, SyncReturns,
      SelectL1Head, SelectSyncNotify, SyncReturns,
      SelectL1Head, SelectSyncNotify]"

section \<open>Properties\<close>

lemma chan_len_make_chan [simp]: "chan_len (make_chan n) = 0"
  by (simp add: chan_len_def make_chan_def)

text \<open>
  C8. When \<^verbatim>\<open>onBlockProposed\<close> is called while \<^verbatim>\<open>proveValidProofCh\<close> or
  \<^verbatim>\<open>proveInvalidProofCh\<close> holds a proof, it invokes \<^verbatim>\<open>end()\<close> and returns
  \<^verbatim>\<open>nil\<close> at once: it is never blocked on the concurrency guard, no goroutine is
  started and the prover (cursor, last handled id, guard tokens) is as before,
  whatever the event's id and the parity flags are.
\<close>

theorem onBlockProposed_early_stop:
  assumes "chan_len (proveValidProofCh p) > 0 \<or> chan_len (proveInvalidProofCh p) > 0"
  shows "onBlockProposed p event =
           Some \<lparr>ret_prover = p, ret_err = None, ret_end = True, ret_go = None\<rparr>"
  using assms by (simp add: onBlockProposed_def onBlockProposed_checks_def)

theorem onBlockProposed_early_stop_witness:
  "onBlockProposed (new_Prover\<lparr>proveInvalidProofCh := \<lparr>chan_cap = 4, chan_buf = [()]\<rparr>\<rparr>)
       \<lparr>proposed_Id = 9, proposed_Raw = \<lparr>BlockNumber = 30, BlockHash = 0, TxIndex = 0\<rparr>\<rparr>
     = Some \<lparr>ret_prover = new_Prover\<lparr>proveInvalidProofCh := \<lparr>chan_cap = 4, chan_buf = [()]\<rparr>\<rparr>,
             ret_err = None, ret_end = True, ret_go = None\<rparr>"
  using onBlockProposed_early_stop
          [of "new_Prover\<lparr>proveInvalidProofCh := \<lparr>chan_cap = 4, chan_buf = [()]\<rparr>\<rparr>"
              "\<lparr>proposed_Id = 9, proposed_Raw = \<lparr>BlockNumber = 30, BlockHash = 0, TxIndex = 0\<rparr>\<rparr>"]
  by (simp add: chan_len_def)

text \<open>
  C2. \<^verbatim>\<open>initL1Current\<close>, once \<^verbatim>\<open>WaitTillL2Synced\<close> has returned \<^verbatim>\<open>nil\<close>: with no
  starting block id and a protocol state whose \<^verbatim>\<open>LatestVerifiedId\<close> is 0 the cursor
  becomes \<^verbatim>\<open>GenesisHeight\<close>; with a nonzero \<^verbatim>\<open>LatestVerifiedId\<close>, or with a
  configured starting block id, it becomes the \<^verbatim>\<open>L1BlockHeight\<close> (read as a
  \<^verbatim>\<open>uint64\<close>) of the L1Origin that the L2 node returns for that id. In each case
  the call returns \<^verbatim>\<open>nil\<close> and changes nothing else. Genesis height 100 gives
  \<open>l1Current = 100\<close>; a latest verified id 7 whose L1Origin has height 512 gives
  \<open>l1Current = 512\<close>.
\<close>

theorem initL1Current_cursor:
  assumes synced: "WaitTillL2Synced rpc (ctx p) = None"
  shows "(GetProtocolStateVariables rpc = Inr vars \<and> LatestVerifiedId vars = 0 \<longrightarrow>
            initL1Current rpc p None = (None, p\<lparr>l1Current := GenesisHeight vars\<rparr>))
       \<and> (GetProtocolStateVariables rpc = Inr vars \<and> LatestVerifiedId vars \<noteq> 0 \<and>
            L1OriginByID rpc (ctx p) (SetUint64 (LatestVerifiedId vars)) = Inr origin \<longrightarrow>
            initL1Current rpc p None = (None, p\<lparr>l1Current := Uint64 (L1BlockHeight origin)\<rparr>))
       \<and> (L1OriginByID rpc (ctx p) blockID = Inr origin \<longrightarrow>
            initL1Current rpc p (Some blockID) =
              (None, p\<lparr>l1Current := Uint64 (L1BlockHeight origin)\<rparr>))
       \<and> (GetProtocolStateVariables rpc = Inr vars \<and> LatestVerifiedId vars = 0 \<and>
            GenesisHeight vars = 100 \<longrightarrow>
            l1Current (snd (initL1Current rpc p None)) = 100)
       \<and> (GetProtocolStateVariables rpc = Inr vars \<and> LatestVerifiedId vars = 7 \<and>
            L1OriginByID rpc (ctx p) 7 = Inr origin \<and> L1BlockHeight origin = 512 \<longrightarrow>
            l1Current (snd (initL1Current rpc p None)) = 512)"
proof -
  have seven: "SetUint64 (7 :: uint64) = 7"
    by (simp add: SetUint64_def)
  have height: "Uint64 512 = 512"
    by (simp add: Uint64_def)
  show ?thesis
    using synced seven height
    by (simp add: initL1Current_def initL1Current_origin_def)
qed

theorem initL1Current_cursor_witness:
  "initL1Current
     \<lparr>WaitTillL2Synced = (\<lambda>c. None),
      GetProtocolStateVariables = Inr \<lparr>GenesisHeight = 100, LatestVerifiedHeight = 0,
                                       LatestVerifiedId = 0, NextBlockId = 1\<rparr>,
      L1OriginByID = (\<lambda>c i. Inl (Error ''not found''))\<rparr>
     (new_Prover :: unit Prover) None = (None, new_Prover\<lparr>l1Current := 100\<rparr>)
   \<and> l1Current (snd (initL1Current
     \<lparr>WaitTillL2Synced = (\<lambda>c. None),
      GetProtocolStateVariables = Inr \<lparr>GenesisHeight = 100, LatestVerifiedHeight = 500,
                                       LatestVerifiedId = 7, NextBlockId = 9\<rparr>,
      L1OriginByID = (\<lambda>c i. Inr \<lparr>L1BlockHeight = 512, L2BlockHash = 0\<rparr>)\<rparr>
     (new_Prover :: unit Prover) None)) = 512
   \<and> initL1Current
     \<lparr>WaitTillL2Synced = (\<lambda>c. None),
      GetProtocolStateVariables = Inl (Error ''unused''),
      L1OriginByID = (\<lambda>c i. Inr \<lparr>L1BlockHeight = 2 * i, L2BlockHash = 0\<rparr>)\<rparr>
     (new_Prover :: unit Prover) (Some 21) = (None, new_Prover\<lparr>l1Current := 42\<rparr>)"
  using initL1Current_cursor
          [where rpc = "\<lparr>WaitTillL2Synced = (\<lambda>c. None),
              GetProtocolStateVariables = Inr \<lparr>GenesisHeight = 100, LatestVerifiedHeight = 0,
                                       LatestVerifiedId = 0, NextBlockId = 1\<rparr>,
              L1OriginByID = (\<lambda>c i. Inl (Error ''not found''))\<rparr>"
             and p = "new_Prover :: unit Prover"
             and vars = "\<lparr>GenesisHeight = 100, LatestVerifiedHeight = 0,
                                       LatestVerifiedId = 0, NextBlockId = 1\<rparr>"]
        initL1Current_cursor
          [where rpc = "\<lparr>WaitTillL2Synced = (\<lambda>c. None),
              GetProtocolStateVariables = Inr \<lparr>GenesisHeight = 100, LatestVerifiedHeight = 500,
                                       LatestVerifiedId = 7, NextBlockId = 9\<rparr>,
              L1OriginByID = (\<lambda>c i. Inr \<lparr>L1BlockHeight = 512, L2BlockHash = 0\<rparr>)\<rparr>"
             and p = "new_Prover :: unit Prover"
             and vars = "\<lparr>GenesisHeight = 100, LatestVerifiedHeight = 500,
                                       LatestVerifiedId = 7, NextBlockId = 9\<rparr>"
             and origin = "\<lparr>L1BlockHeight = 512, L2BlockHash = 0\<rparr>"]
        initL1Current_cursor
          [where rpc = "\<lparr>WaitTillL2Synced = (\<lambda>c. None),
              GetProtocolStateVariables = Inl (Error ''unused''),
              L1OriginByID = (\<lambda>c i. Inr \<lparr>L1BlockHeight = 2 * i, L2BlockHash = 0\<rparr>)\<rparr>"
             and p = "new_Prover :: unit Prover"
             and blockID = 21
             and origin = "\<lparr>L1BlockHeight = 42, L2BlockHash = 0\<rparr>"]
  by (simp add: Uint64_def)

subsection \<open>The steps of onBlockProposed\<close>

lemma checks_Proceed:
  "onBlockProposed_checks p e = Proceed \<Longrightarrow>
     lastHandledBlockID p < Uint64 (proposed_Id e)
     \<and> chan_len (proveValidProofCh p) = 0 \<and> chan_len (proveInvalidProofCh p) = 0
     \<and> (OnlyProveEvenNumberBlocks (cfg p) \<longrightarrow> Uint64 (proposed_Id e) mod 2 = 0)
     \<and> (OnlyProveOddNumberBlocks (cfg p) \<longrightarrow> Uint64 (proposed_Id e) mod 2 \<noteq> 0)"
  by (auto simp: onBlockProposed_checks_def split: if_splits)

lemma acquire_Some:
  "onBlockProposed_acquire p e = Some p' \<Longrightarrow>
     \<exists>guard. chan_send (proposeConcurrencyGuard p) () = Some guard \<and>
       p' = p\<lparr>proposeConcurrencyGuard := guard,
              l1Current := BlockNumber (proposed_Raw e),
              lastHandledBlockID := Uint64 (proposed_Id e)\<rparr>"
  by (auto simp: onBlockProposed_acquire_def split: option.splits)

lemma submit_acquire_Some:
  "submitProofOp_acquire p = Some p' \<Longrightarrow>
     \<exists>guard. chan_send (submitProofConcurrencyGuard p) () = Some guard \<and>
       p' = p\<lparr>submitProofConcurrencyGuard := guard\<rparr>"
  by (auto simp: submitProofOp_acquire_def split: option.splits)

lemma onBlockProposed_Some:
  "onBlockProposed p e = Some r \<Longrightarrow>
     (ret_go r = None \<and> ret_prover r = p \<and> onBlockProposed_checks p e \<noteq> Proceed)
     \<or> (ret_go r = Some e \<and> onBlockProposed_checks p e = Proceed
         \<and> onBlockProposed_acquire p e = Some (ret_prover r))"
  by (auto simp: onBlockProposed_def split: verdict.splits option.splits)

lemma onBlockProposed_None:
  "onBlockProposed p e = None \<Longrightarrow>
     onBlockProposed_checks p e = Proceed \<and> onBlockProposed_acquire p e = None"
  by (auto simp: onBlockProposed_def split: verdict.splits option.splits)

lemma reqProving_frame [simp]:
  "cfg (reqProving p) = cfg p"
  "lastHandledBlockID (reqProving p) = lastHandledBlockID p"
  "l1Current (reqProving p) = l1Current p"
  "proposeConcurrencyGuard (reqProving p) = proposeConcurrencyGuard p"
  "submitProofConcurrencyGuard (reqProving p) = submitProofConcurrencyGuard p"
  by (simp_all add: reqProving_def split: option.split)

lemma onBlockVerified_frame [simp]:
  "cfg (snd (onBlockVerified p e)) = cfg p"
  "lastHandledBlockID (snd (onBlockVerified p e)) = lastHandledBlockID p"
  "l1Current (snd (onBlockVerified p e)) = l1Current p"
  "proveNotify (snd (onBlockVerified p e)) = proveNotify p"
  "proposeConcurrencyGuard (snd (onBlockVerified p e)) = proposeConcurrencyGuard p"
  "submitProofConcurrencyGuard (snd (onBlockVerified p e)) = submitProofConcurrencyGuard p"
  by (simp_all add: onBlockVerified_def Let_def)

lemma spawn_submit_frame [simp]:
  "cfg (prover (spawn_submit s w v)) = cfg (prover s)"
  "lastHandledBlockID (prover (spawn_submit s w v)) = lastHandledBlockID (prover s)"
  "l1Current (prover (spawn_submit s w v)) = l1Current (prover s)"
  "proveNotify (prover (spawn_submit s w v)) = proveNotify (prover s)"
  "proposeConcurrencyGuard (prover (spawn_submit s w v)) = proposeConcurrencyGuard (prover s)"
  "dispatched (spawn_submit s w v) = dispatched s"
  "requested (spawn_submit s w v) = requested s"
  "proving (spawn_submit s w v) = proving s"
  "loop (spawn_submit s w v) \<noteq> AtProposeGuard e"
  by (simp_all add: spawn_submit_def submitProofOp_acquire_def split: option.split)

lemma set_drop_nth: "set (drop_nth k xs) \<subseteq> set xs"
  unfolding drop_nth_def by (auto dest: in_set_takeD in_set_dropD)

text \<open>
  A step dispatches an event (from a call that passed the tests, or from the blocked
  send going through), or blocks the loop on an event that passed the tests, or
  leaves the configuration, the cursor, the last handled id and the history alone
  and starts no worker.
\<close>

lemma spawn_submit_loop:
  "loop (spawn_submit s w v) = Running \<or> loop (spawn_submit s w v) = AtSubmitGuard w v"
  by (simp add: spawn_submit_def split: option.split)

lemma step_kinds:
  assumes "step s a = Some s'"
  shows "(\<exists>e p'. (loop s \<noteq> AtProposeGuard e \<longrightarrow>
                 loop s = Running \<and> onBlockProposed_checks (prover s) e = Proceed)
              \<and> onBlockProposed_acquire (prover s) e = Some p'
              \<and> prover s' = p' \<and> loop s' = Running
              \<and> proving s' = proving s @ [e] \<and> dispatched s' = dispatched s @ [e]
              \<and> requested s' = requested s)
       \<or> (\<exists>e. loop s = Running \<and> onBlockProposed_checks (prover s) e = Proceed
              \<and> loop s' = AtProposeGuard e
              \<and> prover s' = prover s \<and> proving s' = proving s
              \<and> dispatched s' = dispatched s \<and> requested s' = requested s)
       \<or> (cfg (prover s') = cfg (prover s)
            \<and> lastHandledBlockID (prover s') = lastHandledBlockID (prover s)
            \<and> l1Current (prover s') = l1Current (prover s)
            \<and> dispatched s' = dispatched s \<and> set (proving s') \<subseteq> set (proving s)
            \<and> (requested s' \<noteq> requested s \<longrightarrow>
                 (\<exists>e \<in> set (proving s). e \<notin> set (requested s)
                    \<and> requested s' = requested s @ [e] \<and> proving s' = proving s))
            \<and> (\<forall>e. loop s' = AtProposeGuard e \<longrightarrow> loop s = AtProposeGuard e))"
proof -
  let ?frame = "cfg (prover s') = cfg (prover s)
            \<and> lastHandledBlockID (prover s') = lastHandledBlockID (prover s)
            \<and> l1Current (prover s') = l1Current (prover s)
            \<and> dispatched s' = dispatched s \<and> set (proving s') \<subseteq> set (proving s)
            \<and> (requested s' \<noteq> requested s \<longrightarrow>
                 (\<exists>e \<in> set (proving s). e \<notin> set (requested s)
                    \<and> requested s' = requested s @ [e] \<and> proving s' = proving s))
            \<and> (\<forall>e. loop s' = AtProposeGuard e \<longrightarrow> loop s = AtProposeGuard e)"
  show ?thesis
  proof (cases a)
  case (Call event)
  with assms have running: "loop s = Running"
    by (auto split: if_splits)
  show ?thesis
  proof (cases "onBlockProposed (prover s) event")
    case None
    with assms Call running have "s' = s\<lparr>loop := AtProposeGuard event\<rparr>"
      by simp
    with running onBlockProposed_None[OF None]
    have "loop s = Running \<and> onBlockProposed_checks (prover s) event = Proceed
              \<and> loop s' = AtProposeGuard event
              \<and> prover s' = prover s \<and> proving s' = proving s
              \<and> dispatched s' = dispatched s \<and> requested s' = requested s"
      by simp
    then show ?thesis
      by blast
  next
    case (Some r)
    from onBlockProposed_Some[OF Some] show ?thesis
    proof
      assume skip: "ret_go r = None \<and> ret_prover r = prover s
                     \<and> onBlockProposed_checks (prover s) event \<noteq> Proceed"
      with assms Call running Some have "s' = s"
        by simp
      then show ?thesis
        by simp
    next
      assume go: "ret_go r = Some event \<and> onBlockProposed_checks (prover s) event = Proceed
                   \<and> onBlockProposed_acquire (prover s) event = Some (ret_prover r)"
      with assms Call running Some
      have "s' = s\<lparr>prover := ret_prover r, proving := proving s @ [event],
                     dispatched := dispatched s @ [event]\<rparr>"
        by simp
      with go running
      have "(loop s \<noteq> AtProposeGuard event \<longrightarrow>
                 loop s = Running \<and> onBlockProposed_checks (prover s) event = Proceed)
              \<and> onBlockProposed_acquire (prover s) event = Some (ret_prover r)
              \<and> prover s' = ret_prover r \<and> loop s' = Running
              \<and> proving s' = proving s @ [event] \<and> dispatched s' = dispatched s @ [event]
              \<and> requested s' = requested s"
        by simp
      then show ?thesis
        by blast
    qed
  qed
next
  case UnblockPropose
  with assms obtain event p' where
    "loop s = AtProposeGuard event" and "onBlockProposed_acquire (prover s) event = Some p'"
    and "s' = s\<lparr>prover := p', loop := Running, proving := proving s @ [event],
                  dispatched := dispatched s @ [event]\<rparr>"
    by (auto split: Site.splits option.splits)
  then have "(loop s \<noteq> AtProposeGuard event \<longrightarrow>
                 loop s = Running \<and> onBlockProposed_checks (prover s) event = Proceed)
              \<and> onBlockProposed_acquire (prover s) event = Some p'
              \<and> prover s' = p' \<and> loop s' = Running
              \<and> proving s' = proving s @ [event] \<and> dispatched s' = dispatched s @ [event]
              \<and> requested s' = requested s"
    by simp
  then show ?thesis
    by blast
next
  case (WorkerRequest k env)
  with assms have ?frame
    by (auto split: if_splits option.splits)
  then show ?thesis
    by (intro disjI2)
next
  case (WorkerDone k)
  with assms set_drop_nth[of k "proving s"] have ?frame
    by (auto split: if_splits option.splits)
  then show ?thesis
    by (intro disjI2)
next
  case (SelectProof v)
  with assms obtain w ch where
    "s' = spawn_submit (s\<lparr>prover := (prover s)\<lparr>proveValidProofCh := ch\<rparr>\<rparr>) w True
     \<or> s' = spawn_submit (s\<lparr>prover := (prover s)\<lparr>proveInvalidProofCh := ch\<rparr>\<rparr>) w False"
    by (auto split: if_splits option.splits)
  then have ?frame
    by auto
  then show ?thesis
    by (intro disjI2)
next
  case UnblockSubmit
  with assms have ?frame
    by (auto split: Site.splits option.splits dest!: submit_acquire_Some)
  then show ?thesis
    by (intro disjI2)
next
  case (SubmitDone k)
  with assms have ?frame
    by (auto split: if_splits option.splits)
  then show ?thesis
    by (intro disjI2)
next
  case SelectNotify
  with assms have ?frame
    by (auto split: if_splits option.splits)
  then show ?thesis
    by (intro disjI2)
next
  case SelectBlockProposed
  with assms have ?frame
    by (auto split: if_splits option.splits)
  then show ?thesis
    by (intro disjI2)
next
  case SelectBlockVerified
  with assms have ?frame
    by (auto split: if_splits option.splits)
  then show ?thesis
    by (intro disjI2)
next
  case ForceProving
  with assms have ?frame
    by (auto split: if_splits option.splits)
  then show ?thesis
    by (intro disjI2)
next
  case (ProofProduced v w)
  with assms have ?frame
    by (auto split: if_splits option.splits)
  then show ?thesis
    by (intro disjI2)
next
  case (EmitProposed e)
  with assms have ?frame
    by (auto split: if_splits option.splits)
  then show ?thesis
    by (intro disjI2)
next
  case (EmitVerified e)
  with assms have ?frame
    by (auto split: if_splits option.splits)
  then show ?thesis
    by (intro disjI2)
qed
qed


subsection \<open>The retry loop and InitFromConfig\<close>

lemma Retry_loop_preserves_aux:
  "Retry_loop operation b k s waits = Some res \<Longrightarrow>
     (\<forall>j t e t'. operation j t = (e, t') \<longrightarrow> Q t \<longrightarrow> Q t') \<longrightarrow> Q s \<longrightarrow> Q (fst (snd res))"
proof (induction operation b k s waits res rule: Retry_loop.raw_induct[rotated 1, consumes 1, case_names step])
  case (step R operation b k s waits res)
  show ?case
  proof (intro impI)
    assume op: "\<forall>j t e t'. operation j t = (e, t') \<longrightarrow> Q t \<longrightarrow> Q t'" and q: "Q s"
    obtain e t where o: "operation k s = (e, t)"
      by (cases "operation k s")
    with op q have qt: "Q t"
      by blast
    from step.hyps o qt op step.IH show "Q (fst (snd res))"
      by (auto split: option.splits)
  qed
qed

lemma Retry_preserves:
  assumes "Retry operation b s = Some (err, s', waits)"
    and "\<And>j t e t'. operation j t = (e, t') \<Longrightarrow> Q t \<Longrightarrow> Q t'"
    and "Q s"
  shows "Q s'"
  using Retry_loop_preserves_aux[of operation b 0 s "[]" "(err, s', waits)" Q] assms
  unfolding Retry_def by auto

lemma initL1Current_frame:
  "initL1Current rpc p start = (e, p') \<Longrightarrow> \<exists>h. p' = p\<lparr>l1Current := h\<rparr>"
  by (auto simp: initL1Current_def initL1Current_origin_def
      split: option.splits sum.splits if_splits intro: exI[of _ "l1Current p"])

lemma InitFromConfig_ok:
  assumes "InitFromConfig env ctx0 p0 cfg0 = Some (None, p)"
  shows "cfg p = cfg0 \<and> proveNotify p = make_chan 1
       \<and> proposeConcurrencyGuard p = make_chan (MaxConcurrentProvingJobs cfg0)
       \<and> submitProofConcurrencyGuard p = make_chan (MaxConcurrentProvingJobs cfg0)"
proof -
  let ?p2 = "p0\<lparr>cfg := cfg0, ctx := ctx0,
                 blockProposedCh := make_chan chBufferSize,
                 blockVerifiedCh := make_chan chBufferSize,
                 proveValidProofCh := make_chan chBufferSize,
                 proveInvalidProofCh := make_chan chBufferSize,
                 proveNotify := make_chan 1\<rparr>"
  let ?op = "\<lambda>k p. if ctx0 \<noteq> None then (None, p)
                     else initL1Current (initRpc env k) p (StartingBlockID cfg0)"
  from assms obtain e p3 w where
    retry: "Retry ?op (NewExponentialBackOff env) ?p2 = Some (e, p3, w)"
    and p: "p = p3\<lparr>proposeConcurrencyGuard := make_chan (MaxConcurrentProvingJobs cfg0),
                   submitProofConcurrencyGuard := make_chan (MaxConcurrentProvingJobs cfg0)\<rparr>"
    by (auto simp: InitFromConfig_def Let_def split: option.splits if_splits)
  have "cfg p3 = cfg0 \<and> proveNotify p3 = make_chan 1"
  proof (rule Retry_preserves[OF retry, where Q = "\<lambda>q. cfg q = cfg0 \<and> proveNotify q = make_chan 1"])
    fix j t e t'
    assume "?op j t = (e, t')" and "cfg t = cfg0 \<and> proveNotify t = make_chan 1"
    then show "cfg t' = cfg0 \<and> proveNotify t' = make_chan 1"
      by (auto split: if_splits dest!: initL1Current_frame)
  qed simp
  with p show ?thesis
    by simp
qed


subsection \<open>The concurrency guards\<close>

lemma chan_send_Some:
  "chan_send c x = Some c' \<Longrightarrow>
     chan_len c' = Suc (chan_len c) \<and> chan_cap c' = chan_cap c \<and> chan_len c < chan_cap c"
  by (auto simp: chan_send_def chan_len_def split: if_splits)

lemma chan_recv_Some:
  "chan_recv c = Some (x, c') \<Longrightarrow> chan_len c = Suc (chan_len c') \<and> chan_cap c' = chan_cap c"
  by (auto simp: chan_recv_def chan_len_def split: list.splits)

lemma length_drop_nth: "k < length xs \<Longrightarrow> length (drop_nth k xs) = length xs - 1"
  by (auto simp: drop_nth_def)

lemma spawn_submit_bounded:
  "bounded_inv n s \<Longrightarrow> bounded_inv n (spawn_submit s w v)"
  by (auto simp: spawn_submit_def bounded_inv_def guard_inv_def split: option.splits
      dest!: submit_acquire_Some chan_send_Some)

lemma step_bounded_inv:
  assumes "bounded_inv n s" and "step s a = Some s'"
  shows "bounded_inv n s'"
proof (cases a)
  case (Call event)
  show ?thesis
  proof (cases "onBlockProposed (prover s) event")
    case None
    with assms Call show ?thesis
      by (auto simp: bounded_inv_def guard_inv_def split: if_splits)
  next
    case (Some r)
    from onBlockProposed_Some[OF Some] show ?thesis
    proof
      assume "ret_go r = None \<and> ret_prover r = prover s \<and> onBlockProposed_checks (prover s) event \<noteq> Proceed"
      with assms Call Some show ?thesis
        by (auto simp: bounded_inv_def guard_inv_def split: if_splits)
    next
      assume go: "ret_go r = Some event \<and> onBlockProposed_checks (prover s) event = Proceed
         \<and> onBlockProposed_acquire (prover s) event = Some (ret_prover r)"
      from go acquire_Some obtain guard where
        g: "chan_send (proposeConcurrencyGuard (prover s)) () = Some guard"
        and r: "ret_prover r = (prover s)\<lparr>proposeConcurrencyGuard := guard,
              l1Current := BlockNumber (proposed_Raw event),
              lastHandledBlockID := Uint64 (proposed_Id event)\<rparr>"
        by blast
      from assms Call Some go have s': "s' = s\<lparr>prover := ret_prover r, proving := proving s @ [event],
                            dispatched := dispatched s @ [event]\<rparr>"
        by (auto split: if_splits)
      show ?thesis
        using assms(1) chan_send_Some[OF g] unfolding s' r bounded_inv_def guard_inv_def
        by auto
    qed
  qed
next
  case UnblockPropose
  with assms obtain event p' where
    acq: "onBlockProposed_acquire (prover s) event = Some p'"
    and s': "s' = s\<lparr>prover := p', loop := Running, proving := proving s @ [event],
                       dispatched := dispatched s @ [event]\<rparr>"
    by (auto split: Site.splits option.splits)
  from acquire_Some[OF acq] obtain guard where
    g: "chan_send (proposeConcurrencyGuard (prover s)) () = Some guard"
    and p': "p' = (prover s)\<lparr>proposeConcurrencyGuard := guard,
              l1Current := BlockNumber (proposed_Raw event),
              lastHandledBlockID := Uint64 (proposed_Id event)\<rparr>"
    by blast
  show ?thesis
    using assms(1) chan_send_Some[OF g] unfolding s' p' bounded_inv_def guard_inv_def
    by auto
next
  case (WorkerRequest k env)
  with assms show ?thesis
    by (auto simp: bounded_inv_def guard_inv_def split: if_splits option.splits)
next
  case (WorkerDone k)
  with assms show ?thesis
    by (auto simp: bounded_inv_def guard_inv_def length_drop_nth split: if_splits option.splits
        dest!: chan_recv_Some)
next
  case (SelectProof v)
  with assms obtain w ch where
    "s' = spawn_submit (s\<lparr>prover := (prover s)\<lparr>proveValidProofCh := ch\<rparr>\<rparr>) w True
     \<or> s' = spawn_submit (s\<lparr>prover := (prover s)\<lparr>proveInvalidProofCh := ch\<rparr>\<rparr>) w False"
    by (auto split: if_splits option.splits)
  moreover have "bounded_inv n (s\<lparr>prover := (prover s)\<lparr>proveValidProofCh := ch\<rparr>\<rparr>)"
    and "bounded_inv n (s\<lparr>prover := (prover s)\<lparr>proveInvalidProofCh := ch\<rparr>\<rparr>)"
    using assms(1) by (simp_all add: bounded_inv_def guard_inv_def)
  ultimately show ?thesis
    by (auto intro: spawn_submit_bounded)
next
  case UnblockSubmit
  with assms show ?thesis
    by (auto simp: bounded_inv_def guard_inv_def split: Site.splits option.splits
        dest!: submit_acquire_Some chan_send_Some)
next
  case (SubmitDone k)
  with assms show ?thesis
    by (auto simp: bounded_inv_def guard_inv_def length_drop_nth split: if_splits option.splits
        dest!: chan_recv_Some)
next
  case SelectNotify
  with assms show ?thesis
    by (auto simp: bounded_inv_def guard_inv_def split: if_splits option.splits)
next
  case SelectBlockProposed
  with assms show ?thesis
    by (auto simp: bounded_inv_def guard_inv_def split: if_splits option.splits)
next
  case SelectBlockVerified
  with assms show ?thesis
    by (auto simp: bounded_inv_def guard_inv_def split: if_splits option.splits)
next
  case ForceProving
  with assms show ?thesis
    by (auto simp: bounded_inv_def guard_inv_def split: if_splits option.splits)
next
  case (ProofProduced v w)
  with assms show ?thesis
    by (auto simp: bounded_inv_def guard_inv_def split: if_splits option.splits)
next
  case (EmitProposed e)
  with assms show ?thesis
    by (auto simp: bounded_inv_def guard_inv_def split: if_splits option.splits)
next
  case (EmitVerified e)
  with assms show ?thesis
    by (auto simp: bounded_inv_def guard_inv_def split: if_splits option.splits)
qed

lemma run_bounded_inv:
  "bounded_inv n s \<Longrightarrow> run s acts = Some s' \<Longrightarrow> bounded_inv n s'"
proof (induction acts arbitrary: s)
  case Nil
  then show ?case by simp
next
  case (Cons a acts)
  then obtain s1 where s1: "step s a = Some s1" and r: "run s1 acts = Some s'"
    by (auto split: option.splits)
  from Cons.IH[OF step_bounded_inv[OF Cons.prems(1) s1] r] show ?case .
qed

text \<open>
  C4. Bounded concurrency. After an \<^verbatim>\<open>InitFromConfig\<close> that returned \<^verbatim>\<open>nil\<close>,
  whatever the schedule, the goroutines started at line 343 that have not yet run
  their deferred receive are at most \<^verbatim>\<open>MaxConcurrentProvingJobs\<close>, and so are the
  goroutines started at line 355: each guard has that capacity, and holds exactly
  one token for each such goroutine (the token is sent before the \<^verbatim>\<open>go\<close> statement
  and received by the deferred function). A goroutine counts as running from its
  \<^verbatim>\<open>go\<close> statement to its deferred receive.
\<close>

theorem bounded_concurrency:
  assumes init: "InitFromConfig env ctx0 p0 cfg0 = Some (None, p)"
    and run: "run (Start p) acts = Some s"
  shows "length (proving s) \<le> MaxConcurrentProvingJobs cfg0
       \<and> length (submitting s) \<le> MaxConcurrentProvingJobs cfg0
       \<and> length (proving s) = chan_len (proposeConcurrencyGuard (prover s))
       \<and> length (submitting s) = chan_len (submitProofConcurrencyGuard (prover s))
       \<and> chan_cap (proposeConcurrencyGuard (prover s)) = MaxConcurrentProvingJobs cfg0
       \<and> chan_cap (submitProofConcurrencyGuard (prover s)) = MaxConcurrentProvingJobs cfg0"
proof -
  from InitFromConfig_ok[OF init]
  have "bounded_inv (MaxConcurrentProvingJobs cfg0) (Start p)"
    by (simp add: bounded_inv_def guard_inv_def Start_def make_chan_def chan_len_def)
  from run_bounded_inv[OF this run] show ?thesis
    by (simp add: bounded_inv_def guard_inv_def)
qed


theorem bounded_concurrency_witness:
  "\<exists>p s. InitFromConfig
            example_InitEnv
            None (new_Prover :: unit Prover)
            ((example_Config 1)\<lparr>Dummy := True\<rparr>)
          = Some (None, p)
      \<and> run (Start p)
            [Call (proposed 3 100), Call (proposed 4 101), ProofProduced True (),
             WorkerDone 0, UnblockPropose, SelectProof True] = Some s
      \<and> length (proving s) \<le> 1 \<and> length (submitting s) \<le> 1"
proof -
  have "\<exists>p s. InitFromConfig
            example_InitEnv
            None (new_Prover :: unit Prover)
            ((example_Config 1)\<lparr>Dummy := True\<rparr>)
          = Some (None, p)
      \<and> run (Start p)
            [Call (proposed 3 100), Call (proposed 4 101), ProofProduced True (),
             WorkerDone 0, UnblockPropose, SelectProof True] = Some s"
    by (simp add: example_InitEnv_def example_DriverInitEnv_def new_Driver_def InitFromConfig_def Retry_def Retry_loop.simps initL1Current_def
          Start_def new_Prover_def
          example_Prover_def even_Prover_def example_Config_def make_chan_def proposed_def onBlockProposed_def
          onBlockProposed_checks_def onBlockProposed_acquire_def chan_send_def chan_recv_def
          chan_len_def Uint64_def drop_nth_def chBufferSize_def spawn_submit_def
          submitProofOp_acquire_def)
  then obtain p s where
    i: "InitFromConfig
            example_InitEnv
            None (new_Prover :: unit Prover)
            ((example_Config 1)\<lparr>Dummy := True\<rparr>)
          = Some (None, p)"
    and r: "run (Start p)
            [Call (proposed 3 100), Call (proposed 4 101), ProofProduced True (),
             WorkerDone 0, UnblockPropose, SelectProof True] = Some s"
    by blast
  from bounded_concurrency[OF i r]
  have b1: "length (proving s) \<le> 1" and b2: "length (submitting s) \<le> 1"
    by (simp_all add: example_Config_def)
  show ?thesis
    by (intro exI[of _ p] exI[of _ s] conjI i r b1 b2)
qed

subsection \<open>The order of dispatch, the parity filter and the skip of handled ids\<close>

lemma step_dispatch_inv:
  assumes inv: "dispatch_inv s" and step: "step s a = Some s'"
  shows "dispatch_inv s' \<and> lastHandledBlockID (prover s) \<le> lastHandledBlockID (prover s')"
  using step_kinds[OF step]
proof (elim disjE exE conjE)
  fix e p'
  assume site: "loop s \<noteq> AtProposeGuard e \<longrightarrow>
                 loop s = Running \<and> onBlockProposed_checks (prover s) e = Proceed"
    and acq: "onBlockProposed_acquire (prover s) e = Some p'"
    and s': "prover s' = p'" "loop s' = Running" "proving s' = proving s @ [e]"
      "dispatched s' = dispatched s @ [e]" "requested s' = requested s"
  from site inv checks_Proceed[of "prover s" e]
  have lt: "lastHandledBlockID (prover s) < Uint64 (proposed_Id e)"
    by (auto simp: dispatch_inv_def)
  from acquire_Some[OF acq] have "lastHandledBlockID p' = Uint64 (proposed_Id e)"
    by auto
  with inv lt s' show ?thesis
    by (auto simp: dispatch_inv_def sorted_wrt_append)
next
  fix e
  assume "loop s = Running" "onBlockProposed_checks (prover s) e = Proceed"
    "loop s' = AtProposeGuard e" "prover s' = prover s" "proving s' = proving s"
    "dispatched s' = dispatched s" "requested s' = requested s"
  with inv checks_Proceed[of "prover s" e] show ?thesis
    by (auto simp: dispatch_inv_def)
next
  assume "cfg (prover s') = cfg (prover s)"
    "lastHandledBlockID (prover s') = lastHandledBlockID (prover s)"
    "dispatched s' = dispatched s" "set (proving s') \<subseteq> set (proving s)"
    "requested s' \<noteq> requested s \<longrightarrow>
       (\<exists>e \<in> set (proving s). e \<notin> set (requested s)
          \<and> requested s' = requested s @ [e] \<and> proving s' = proving s)"
    "\<forall>e. loop s' = AtProposeGuard e \<longrightarrow> loop s = AtProposeGuard e"
  with inv show ?thesis
    by (auto simp: dispatch_inv_def)
qed

lemma run_dispatch_inv:
  "dispatch_inv s \<Longrightarrow> run s acts = Some s' \<Longrightarrow>
     dispatch_inv s' \<and> lastHandledBlockID (prover s) \<le> lastHandledBlockID (prover s')"
proof (induction acts arbitrary: s)
  case Nil
  then show ?case by simp
next
  case (Cons a acts)
  then obtain s1 where s1: "step s a = Some s1" and r: "run s1 acts = Some s'"
    by (auto split: option.splits)
  from step_dispatch_inv[OF Cons.prems(1) s1] Cons.IH[OF _ r] show ?case
    by auto
qed

lemma step_order_inv:
  assumes disp: "dispatch_inv s" and one: "length (proving s) \<le> 1"
    and inv: "order_inv s" and step: "step s a = Some s'"
  shows "order_inv s'"
  using step_kinds[OF step]
proof (elim disjE exE conjE)
  fix e p'
  assume site: "loop s \<noteq> AtProposeGuard e \<longrightarrow>
                 loop s = Running \<and> onBlockProposed_checks (prover s) e = Proceed"
    and s': "proving s' = proving s @ [e]" "requested s' = requested s"
  from site disp checks_Proceed[of "prover s" e]
  have lt: "lastHandledBlockID (prover s) < Uint64 (proposed_Id e)"
    by (auto simp: dispatch_inv_def)
  from disp have "\<forall>r \<in> set (requested s). Uint64 (proposed_Id r) \<le> lastHandledBlockID (prover s)"
    by (auto simp: dispatch_inv_def)
  with lt have "\<forall>r \<in> set (requested s). Uint64 (proposed_Id r) < Uint64 (proposed_Id e)"
    by (meson order_le_less_trans)
  with inv s' show ?thesis
    by (auto simp: order_inv_def)
next
  fix e
  assume "proving s' = proving s" "requested s' = requested s"
  with inv show ?thesis
    by (simp add: order_inv_def)
next
  assume sub: "set (proving s') \<subseteq> set (proving s)"
    and req: "requested s' \<noteq> requested s \<longrightarrow>
       (\<exists>e \<in> set (proving s). e \<notin> set (requested s)
          \<and> requested s' = requested s @ [e] \<and> proving s' = proving s)"
  show ?thesis
  proof (cases "requested s' = requested s")
    case True
    with inv sub show ?thesis
      by (auto simp: order_inv_def)
  next
    case False
    with req obtain e where e: "e \<in> set (proving s)" "e \<notin> set (requested s)"
      "requested s' = requested s @ [e]" "proving s' = proving s"
      by blast
    from one e(1) have "proving s = [e]"
      by (cases "proving s") auto
    with inv e show ?thesis
      by (auto simp: order_inv_def sorted_wrt_append)
  qed
qed

lemma run_order_inv:
  "dispatch_inv s \<Longrightarrow> bounded_inv n s \<Longrightarrow> n \<le> 1 \<Longrightarrow> order_inv s \<Longrightarrow> run s acts = Some s'
     \<Longrightarrow> order_inv s'"
proof (induction acts arbitrary: s)
  case Nil
  then show ?case by simp
next
  case (Cons a acts)
  then obtain s1 where s1: "step s a = Some s1" and r: "run s1 acts = Some s'"
    by (auto split: option.splits)
  from Cons.prems(2,3) have one: "length (proving s) \<le> 1"
    by (simp add: bounded_inv_def guard_inv_def)
  from step_dispatch_inv[OF Cons.prems(1) s1] have d1: "dispatch_inv s1"
    by simp
  from step_bounded_inv[OF Cons.prems(2) s1] have b1: "bounded_inv n s1" .
  from step_order_inv[OF Cons.prems(1) one Cons.prems(4) s1] have o1: "order_inv s1" .
  from Cons.IH[OF d1 b1 Cons.prems(3) o1 r] show ?case .
qed

lemma run_append:
  "run s (as1 @ as2) = (case run s as1 of None \<Rightarrow> None | Some s1 \<Rightarrow> run s1 as2)"
  by (induction as1 arbitrary: s) (auto split: option.splits)


lemma Start_dispatch_inv: "dispatch_inv (Start p)"
  by (simp add: dispatch_inv_def Start_def)

text \<open>
  C1, as stated, fails for the order in which \<^verbatim>\<open>RequestProof\<close> is invoked. The
  workers run concurrently: with two free slots in the guard and
  \<^verbatim>\<open>lastHandledBlockID = 4\<close>, the events of ids 5 and 6 are dispatched in this order,
  and the worker of id 6 may get to its \<^verbatim>\<open>RequestProof\<close> before the worker of id 5
  does; the ids then come in the order 6, 5.
\<close>

theorem request_order_counterexample:
  "\<exists>s. run (Start (example_Prover 2 4))
           [Call (proposed 5 50), Call (proposed 6 51),
            WorkerRequest 1 example_WorkerEnv, WorkerRequest 0 example_WorkerEnv] = Some s
      \<and> map (\<lambda>e. Uint64 (proposed_Id e)) (dispatched s) = [5, 6]
      \<and> map (\<lambda>e. Uint64 (proposed_Id e)) (requested s) = [6, 5]
      \<and> \<not> sorted_wrt (<) (map (\<lambda>e. Uint64 (proposed_Id e)) (requested s))"
  by (simp add: Start_def new_Prover_def example_Prover_def example_Config_def make_chan_def
        proposed_def onBlockProposed_def onBlockProposed_checks_def
        onBlockProposed_acquire_def chan_send_def chan_len_def Uint64_def
        handleBlockProposedEvent_def isBlockVerified_def NeedNewProof_def
        example_WorkerEnv_def)

text \<open>
  C1, amended. Monotonic dispatch. Whatever events are delivered to
  \<^verbatim>\<open>onBlockProposed\<close>, and however the other goroutines' steps fall between the
  calls, the ids (read as \<^verbatim>\<open>uint64\<close>, as the source reads them) of the events for
  which a worker is started increase strictly in the order of the \<^verbatim>\<open>go\<close>
  statements. \<^verbatim>\<open>RequestProof\<close> is invoked only for dispatched events, and the ids
  it is invoked for, taken in the order of dispatch, increase strictly as well.
  When \<^verbatim>\<open>InitFromConfig\<close> has made the guard for at most one job, the invocations
  themselves happen in increasing order of id. \<^verbatim>\<open>lastHandledBlockID\<close> never
  decreases: its value after any prefix of the schedule is at most its value at
  the end, and it starts at the initial one.
\<close>

theorem monotonic_dispatch:
  assumes "run (Start p) acts = Some s"
  shows "sorted_wrt (<) (map (\<lambda>e. Uint64 (proposed_Id e)) (dispatched s))
       \<and> set (requested s) \<subseteq> set (dispatched s)
       \<and> sorted_wrt (<) (map (\<lambda>e. Uint64 (proposed_Id e))
            (filter (\<lambda>e. e \<in> set (requested s)) (dispatched s)))
       \<and> (\<forall>env ctx0 p0 cfg0.
             InitFromConfig env ctx0 p0 cfg0 = Some (None, p)
             \<and> MaxConcurrentProvingJobs cfg0 \<le> 1 \<longrightarrow>
             sorted_wrt (<) (map (\<lambda>e. Uint64 (proposed_Id e)) (requested s)))
       \<and> (\<forall>as1 as2 s1. acts = as1 @ as2 \<and> run (Start p) as1 = Some s1 \<longrightarrow>
             lastHandledBlockID (prover s1) \<le> lastHandledBlockID (prover s))
       \<and> lastHandledBlockID p \<le> lastHandledBlockID (prover s)"
proof -
  have single: "sorted_wrt (<) (map (\<lambda>e. Uint64 (proposed_Id e)) (requested s))"
    if init: "InitFromConfig env ctx0 p0 cfg0 = Some (None, p)"
      and jobs: "MaxConcurrentProvingJobs cfg0 \<le> 1" for env ctx0 p0 cfg0
  proof -
    from InitFromConfig_ok[OF init]
    have "bounded_inv (MaxConcurrentProvingJobs cfg0) (Start p)"
      by (simp add: bounded_inv_def guard_inv_def Start_def make_chan_def chan_len_def)
    moreover have "order_inv (Start p)"
      by (simp add: order_inv_def Start_def)
    ultimately have "order_inv s"
      using run_order_inv[OF Start_dispatch_inv _ jobs _ assms] by blast
    then show ?thesis
      by (simp add: order_inv_def)
  qed
  from run_dispatch_inv[OF Start_dispatch_inv assms]
  have inv: "dispatch_inv s" and le: "lastHandledBlockID p \<le> lastHandledBlockID (prover s)"
    by (simp_all add: Start_def)
  from inv
  have sorted: "sorted_wrt (\<lambda>x y. Uint64 (proposed_Id x) < Uint64 (proposed_Id y))
                  (dispatched s)"
    and sub: "set (requested s) \<subseteq> set (dispatched s)"
    by (simp_all add: dispatch_inv_def sorted_wrt_map)
  have filtered: "sorted_wrt (\<lambda>x y. Uint64 (proposed_Id x) < Uint64 (proposed_Id y))
            (filter (\<lambda>e. e \<in> set (requested s)) (dispatched s))"
    using sorted by (rule sorted_wrt_filter)
  have mono: "lastHandledBlockID (prover s1) \<le> lastHandledBlockID (prover s)"
    if "acts = as1 @ as2" and "run (Start p) as1 = Some s1" for as1 as2 s1
  proof -
    from that assms have "run s1 as2 = Some s"
      by (simp add: run_append)
    moreover have "dispatch_inv s1"
      using run_dispatch_inv[OF Start_dispatch_inv that(2)] by simp
    ultimately show ?thesis
      using run_dispatch_inv by blast
  qed
  from single
  have single': "\<forall>env ctx0 p0 cfg0.
             InitFromConfig env ctx0 p0 cfg0 = Some (None, p)
             \<and> MaxConcurrentProvingJobs cfg0 \<le> 1 \<longrightarrow>
             sorted_wrt (<) (map (\<lambda>e. Uint64 (proposed_Id e)) (requested s))"
    by blast
  from mono
  have mono': "\<forall>as1 as2 s1. acts = as1 @ as2 \<and> run (Start p) as1 = Some s1 \<longrightarrow>
             lastHandledBlockID (prover s1) \<le> lastHandledBlockID (prover s)"
    by blast
  from sorted filtered
  have "sorted_wrt (<) (map (\<lambda>e. Uint64 (proposed_Id e)) (dispatched s))"
    and "sorted_wrt (<) (map (\<lambda>e. Uint64 (proposed_Id e))
            (filter (\<lambda>e. e \<in> set (requested s)) (dispatched s)))"
    by (simp_all add: sorted_wrt_map)
  with sub single' mono' le show ?thesis
    by (intro conjI)
qed

theorem monotonic_dispatch_witness:
  "\<exists>p s. InitFromConfig example_InitEnv None (new_Prover :: unit Prover) (example_Config 1)
            = Some (None, p)
      \<and> run (Start p)
            [Call (proposed 3 30), WorkerRequest 0 example_WorkerEnv, Call (proposed 9 31),
             WorkerDone 0, UnblockPropose, WorkerRequest 0 example_WorkerEnv,
             Call (proposed 7 30)] = Some s
      \<and> dispatched s = [proposed 3 30, proposed 9 31]
      \<and> requested s = [proposed 3 30, proposed 9 31]
      \<and> sorted_wrt (<) (map (\<lambda>e. Uint64 (proposed_Id e)) (dispatched s))
      \<and> sorted_wrt (<) (map (\<lambda>e. Uint64 (proposed_Id e)) (requested s))
      \<and> lastHandledBlockID p \<le> lastHandledBlockID (prover s)"
proof -
  have "\<exists>p s. InitFromConfig example_InitEnv None (new_Prover :: unit Prover) (example_Config 1)
            = Some (None, p)
      \<and> run (Start p)
            [Call (proposed 3 30), WorkerRequest 0 example_WorkerEnv, Call (proposed 9 31),
             WorkerDone 0, UnblockPropose, WorkerRequest 0 example_WorkerEnv,
             Call (proposed 7 30)] = Some s
      \<and> dispatched s = [proposed 3 30, proposed 9 31]
      \<and> requested s = [proposed 3 30, proposed 9 31]"
    by (simp add: example_InitEnv_def InitFromConfig_def Retry_def Retry_loop.simps
          initL1Current_def chBufferSize_def Start_def new_Prover_def example_Config_def
          make_chan_def proposed_def onBlockProposed_def onBlockProposed_checks_def
          onBlockProposed_acquire_def chan_send_def chan_recv_def chan_len_def Uint64_def
          drop_nth_def handleBlockProposedEvent_def isBlockVerified_def NeedNewProof_def
          example_WorkerEnv_def)
  then obtain p s where
    i: "InitFromConfig example_InitEnv None (new_Prover :: unit Prover) (example_Config 1)
          = Some (None, p)"
    and r: "run (Start p)
            [Call (proposed 3 30), WorkerRequest 0 example_WorkerEnv, Call (proposed 9 31),
             WorkerDone 0, UnblockPropose, WorkerRequest 0 example_WorkerEnv,
             Call (proposed 7 30)] = Some s"
    and d: "dispatched s = [proposed 3 30, proposed 9 31]"
    and q: "requested s = [proposed 3 30, proposed 9 31]"
    by blast
  have jobs: "MaxConcurrentProvingJobs (example_Config 1) \<le> 1"
    by (simp add: example_Config_def)
  note facts = monotonic_dispatch[OF r]
  from facts have sorted: "sorted_wrt (<) (map (\<lambda>e. Uint64 (proposed_Id e)) (dispatched s))"
    by (rule conjunct1)
  from facts i jobs
  have ordered: "sorted_wrt (<) (map (\<lambda>e. Uint64 (proposed_Id e)) (requested s))"
    by blast
  from facts have le: "lastHandledBlockID p \<le> lastHandledBlockID (prover s)"
    by simp
  show ?thesis
    by (intro exI[of _ p] exI[of _ s] conjI i r d q sorted ordered le)
qed

lemma Uint64_even: "(Uint64 x mod 2 = 0) = even x"
proof -
  have "(w mod 2 = 0) = even w" for w :: uint64
    by (simp add: even_iff_mod_2_eq_zero)
  then show ?thesis
    unfolding Uint64_def by transfer simp
qed

lemma checks_Proceed_parity:
  "onBlockProposed_checks p e = Proceed \<Longrightarrow> parity_ok (cfg p) e"
  using checks_Proceed[of p e] by (simp add: parity_ok_def Uint64_even)

lemma step_parity_inv:
  assumes inv: "parity_inv c s" and step: "step s a = Some s'"
  shows "parity_inv c s'"
  using step_kinds[OF step]
proof (elim disjE exE conjE)
  fix e p'
  assume site: "loop s \<noteq> AtProposeGuard e \<longrightarrow>
                 loop s = Running \<and> onBlockProposed_checks (prover s) e = Proceed"
    and acq: "onBlockProposed_acquire (prover s) e = Some p'"
    and s': "prover s' = p'" "loop s' = Running" "proving s' = proving s @ [e]"
      "dispatched s' = dispatched s @ [e]" "requested s' = requested s"
  from site inv checks_Proceed_parity[of "prover s" e] have "parity_ok c e"
    by (auto simp: parity_inv_def)
  moreover from acquire_Some[OF acq] have "cfg p' = cfg (prover s)"
    by auto
  ultimately show ?thesis
    using inv s' by (auto simp: parity_inv_def)
next
  fix e
  assume "loop s = Running" "onBlockProposed_checks (prover s) e = Proceed"
    "loop s' = AtProposeGuard e" "prover s' = prover s" "proving s' = proving s"
    "dispatched s' = dispatched s" "requested s' = requested s"
  with inv checks_Proceed_parity[of "prover s" e] show ?thesis
    by (auto simp: parity_inv_def)
next
  assume "cfg (prover s') = cfg (prover s)" "dispatched s' = dispatched s"
    "set (proving s') \<subseteq> set (proving s)"
    "requested s' \<noteq> requested s \<longrightarrow>
       (\<exists>e \<in> set (proving s). e \<notin> set (requested s)
          \<and> requested s' = requested s @ [e] \<and> proving s' = proving s)"
    "\<forall>e. loop s' = AtProposeGuard e \<longrightarrow> loop s = AtProposeGuard e"
  with inv show ?thesis
    by (auto simp: parity_inv_def)
qed

lemma run_parity_inv:
  "parity_inv c s \<Longrightarrow> run s acts = Some s' \<Longrightarrow> parity_inv c s'"
proof (induction acts arbitrary: s)
  case Nil
  then show ?case by simp
next
  case (Cons a acts)
  then obtain s1 where s1: "step s a = Some s1" and r: "run s1 acts = Some s'"
    by (auto split: option.splits)
  from Cons.IH[OF step_parity_inv[OF Cons.prems(1) s1] r] show ?case .
qed

lemma onBlockProposed_parity_skip:
  assumes "(OnlyProveEvenNumberBlocks (cfg p) \<and> odd (proposed_Id e))
         \<or> (OnlyProveOddNumberBlocks (cfg p) \<and> even (proposed_Id e))"
  shows "\<exists>r. onBlockProposed p e = Some r \<and> ret_go r = None \<and> ret_prover r = p"
  using assms
  by (auto simp: onBlockProposed_def onBlockProposed_checks_def Uint64_even)

text \<open>
  C6. Parity filter. With \<^verbatim>\<open>OnlyProveEvenNumberBlocks\<close> set, whatever the schedule,
  no event with an odd id is ever dispatched: none is in the history of the \<^verbatim>\<open>go\<close>
  statements, none is held by a running worker and \<^verbatim>\<open>RequestProof\<close> is invoked for
  none, and a call of \<^verbatim>\<open>onBlockProposed\<close> with an odd id returns without blocking,
  without starting a goroutine and without changing the prover. With \<^verbatim>\<open>OnlyProveOddNumberBlocks\<close> set the same holds for even ids.
\<close>

theorem parity_filter:
  assumes "run (Start p) acts = Some s"
  shows "(OnlyProveEvenNumberBlocks (cfg p) \<longrightarrow>
            (\<forall>e \<in> set (dispatched s). even (proposed_Id e)) \<and>
            (\<forall>e \<in> set (proving s). even (proposed_Id e)) \<and>
            (\<forall>e \<in> set (requested s). even (proposed_Id e)) \<and>
            (\<forall>q e. cfg q = cfg p \<and> odd (proposed_Id e) \<longrightarrow>
               (\<exists>r. onBlockProposed q e = Some r \<and> ret_go r = None \<and> ret_prover r = q)))
       \<and> (OnlyProveOddNumberBlocks (cfg p) \<longrightarrow>
            (\<forall>e \<in> set (dispatched s). odd (proposed_Id e)) \<and>
            (\<forall>e \<in> set (proving s). odd (proposed_Id e)) \<and>
            (\<forall>e \<in> set (requested s). odd (proposed_Id e)) \<and>
            (\<forall>q e. cfg q = cfg p \<and> even (proposed_Id e) \<longrightarrow>
               (\<exists>r. onBlockProposed q e = Some r \<and> ret_go r = None \<and> ret_prover r = q)))"
proof -
  have "parity_inv (cfg p) (Start p)"
    by (simp add: parity_inv_def Start_def)
  from run_parity_inv[OF this assms]
  have inv: "parity_inv (cfg p) s" .
  have skip_odd: "\<exists>r. onBlockProposed q e = Some r \<and> ret_go r = None \<and> ret_prover r = q"
    if "OnlyProveEvenNumberBlocks (cfg p)" and "cfg q = cfg p" and "odd (proposed_Id e)" for q e
    using onBlockProposed_parity_skip[of q e] that by simp
  have skip_even: "\<exists>r. onBlockProposed q e = Some r \<and> ret_go r = None \<and> ret_prover r = q"
    if "OnlyProveOddNumberBlocks (cfg p)" and "cfg q = cfg p" and "even (proposed_Id e)" for q e
    using onBlockProposed_parity_skip[of q e] that by simp
  from inv have "\<forall>e \<in> set (dispatched s). parity_ok (cfg p) e"
    and "\<forall>e \<in> set (proving s). parity_ok (cfg p) e"
    and "\<forall>e \<in> set (requested s). parity_ok (cfg p) e"
    by (simp_all add: parity_inv_def)
  then show ?thesis
    using skip_odd skip_even unfolding parity_ok_def by blast
qed

theorem parity_filter_witness:
  "\<exists>s. run (Start (even_Prover 3 0))
           [Call (proposed 1 10), Call (proposed 2 10), Call (proposed 3 11),
            Call (proposed 4 12)] = Some s
      \<and> dispatched s = [proposed 2 10, proposed 4 12]
      \<and> even (proposed_Id (proposed 2 10)) \<and> even (proposed_Id (proposed 4 12))"
proof -
  have "\<exists>s. run (Start (even_Prover 3 0))
           [Call (proposed 1 10), Call (proposed 2 10), Call (proposed 3 11),
            Call (proposed 4 12)] = Some s
      \<and> dispatched s = [proposed 2 10, proposed 4 12]"
    by (simp add: Start_def new_Prover_def
          example_Prover_def even_Prover_def example_Config_def make_chan_def proposed_def onBlockProposed_def
          onBlockProposed_checks_def onBlockProposed_acquire_def chan_send_def
          chan_len_def Uint64_def)
  then obtain s where
    r: "run (Start (even_Prover 3 0))
           [Call (proposed 1 10), Call (proposed 2 10), Call (proposed 3 11),
            Call (proposed 4 12)] = Some s"
    and d: "dispatched s = [proposed 2 10, proposed 4 12]"
    by blast
  have flag: "OnlyProveEvenNumberBlocks (cfg (even_Prover 3 0))"
    by (simp add: even_Prover_def)
  from parity_filter[OF r] flag have "\<forall>e \<in> set (dispatched s). even (proposed_Id e)"
    by blast
  with d have e1: "even (proposed_Id (proposed 2 10))" and e2: "even (proposed_Id (proposed 4 12))"
    by simp_all
  show ?thesis
    by (intro exI[of _ s] conjI r d e1 e2)
qed

text \<open>
  C7. Idempotent skip. A call of \<^verbatim>\<open>onBlockProposed\<close> with an id that is at most
  \<^verbatim>\<open>lastHandledBlockID\<close> returns without blocking and without starting a goroutine,
  and leaves the whole state as it was. With \<^verbatim>\<open>lastHandledBlockID = 4\<close>, no parity
  flag, no pending proof and two free slots in the concurrency guard, the calls for
  ids 5, 6 and 5 again start exactly two goroutines, for the first two events; the
  replay is skipped.
\<close>

theorem idempotent_skip:
  assumes running: "loop s = Running"
  shows "(Uint64 (proposed_Id e) \<le> lastHandledBlockID (prover s) \<longrightarrow>
            step s (Call e) = Some s
            \<and> (\<exists>r. onBlockProposed (prover s) e = Some r \<and> ret_go r = None
                   \<and> ret_prover r = prover s))
       \<and> (lastHandledBlockID (prover s) = 4
            \<and> Uint64 (proposed_Id e5) = 5 \<and> Uint64 (proposed_Id e6) = 6
            \<and> Uint64 (proposed_Id e5') = 5
            \<and> \<not> OnlyProveEvenNumberBlocks (cfg (prover s))
            \<and> \<not> OnlyProveOddNumberBlocks (cfg (prover s))
            \<and> chan_len (proveValidProofCh (prover s)) = 0
            \<and> chan_len (proveInvalidProofCh (prover s)) = 0
            \<and> chan_len (proposeConcurrencyGuard (prover s)) + 2
                 \<le> chan_cap (proposeConcurrencyGuard (prover s)) \<longrightarrow>
            (\<exists>s'. run s [Call e5, Call e6, Call e5'] = Some s'
                 \<and> dispatched s' = dispatched s @ [e5, e6]
                 \<and> proving s' = proving s @ [e5, e6]
                 \<and> lastHandledBlockID (prover s') = 6))"
proof (intro conjI impI)
  assume old: "Uint64 (proposed_Id e) \<le> lastHandledBlockID (prover s)"
  then have ret: "onBlockProposed (prover s) e =
      Some \<lparr>ret_prover = prover s, ret_err = None,
            ret_end = (chan_len (proveValidProofCh (prover s)) > 0
                       \<or> chan_len (proveInvalidProofCh (prover s)) > 0),
            ret_go = None\<rparr>"
    by (simp add: onBlockProposed_def onBlockProposed_checks_def)
  from ret running show "step s (Call e) = Some s"
    by simp
  from ret show "\<exists>r. onBlockProposed (prover s) e = Some r \<and> ret_go r = None
                   \<and> ret_prover r = prover s"
    by simp
next
  assume scenario: "lastHandledBlockID (prover s) = 4
            \<and> Uint64 (proposed_Id e5) = 5 \<and> Uint64 (proposed_Id e6) = 6
            \<and> Uint64 (proposed_Id e5') = 5
            \<and> \<not> OnlyProveEvenNumberBlocks (cfg (prover s))
            \<and> \<not> OnlyProveOddNumberBlocks (cfg (prover s))
            \<and> chan_len (proveValidProofCh (prover s)) = 0
            \<and> chan_len (proveInvalidProofCh (prover s)) = 0
            \<and> chan_len (proposeConcurrencyGuard (prover s)) + 2
                 \<le> chan_cap (proposeConcurrencyGuard (prover s))"
  with running show "\<exists>s'. run s [Call e5, Call e6, Call e5'] = Some s'
                 \<and> dispatched s' = dispatched s @ [e5, e6]
                 \<and> proving s' = proving s @ [e5, e6]
                 \<and> lastHandledBlockID (prover s') = 6"
    by (simp add: onBlockProposed_def onBlockProposed_checks_def onBlockProposed_acquire_def
          chan_send_def chan_len_def)
qed

theorem idempotent_skip_witness:
  "(\<exists>s'. run (Start (example_Prover 2 4))
            [Call (proposed 5 50), Call (proposed 6 51), Call (proposed 5 50)] = Some s'
        \<and> dispatched s' = [proposed 5 50, proposed 6 51]
        \<and> proving s' = [proposed 5 50, proposed 6 51]
        \<and> lastHandledBlockID (prover s') = 6)
   \<and> step (Start (example_Prover 2 4))
        (Call (proposed 4 49))
      = Some (Start (example_Prover 2 4))"
proof -
  have running: "loop (Start (example_Prover 2 4)) = Running"
    by (simp add: Start_def)
  have pre: "lastHandledBlockID (prover (Start (example_Prover 2 4))) = 4
      \<and> Uint64 (proposed_Id (proposed 5 50)) = 5 \<and> Uint64 (proposed_Id (proposed 6 51)) = 6
      \<and> Uint64 (proposed_Id (proposed 4 49)) \<le> 4
      \<and> \<not> OnlyProveEvenNumberBlocks (cfg (example_Prover 2 4))
      \<and> \<not> OnlyProveOddNumberBlocks (cfg (example_Prover 2 4))
      \<and> chan_len (proveValidProofCh (example_Prover 2 4)) = 0
      \<and> chan_len (proveInvalidProofCh (example_Prover 2 4)) = 0
      \<and> dispatched (Start (example_Prover 2 4)) = []
      \<and> proving (Start (example_Prover 2 4)) = []"
    by (simp add: Start_def new_Prover_def example_Prover_def example_Config_def proposed_def
          Uint64_def)
  have room: "chan_len (proposeConcurrencyGuard (example_Prover 2 4)) + 2
                \<le> chan_cap (proposeConcurrencyGuard (example_Prover 2 4))"
    by (simp add: example_Prover_def make_chan_def chan_len_def)
  show ?thesis
    using idempotent_skip[OF running, of "proposed 4 49" "proposed 5 50" "proposed 6 51" "proposed 5 50"]
      pre room
    by (simp add: Start_def del: run.simps step.simps)
qed

subsection \<open>The notify channels\<close>

lemma reqProving_notify:
  "chan_cap (proveNotify (reqProving p)) = chan_cap (proveNotify p)"
  "chan_len (proveNotify p) < chan_cap (proveNotify p) \<Longrightarrow>
     chan_len (proveNotify (reqProving p)) = Suc (chan_len (proveNotify p))"
  "chan_cap (proveNotify p) \<le> chan_len (proveNotify p) \<Longrightarrow> reqProving p = p"
  by (auto simp: reqProving_def chan_send_def chan_len_def)

lemma reqProving_one:
  assumes "chan_cap (proveNotify p) = 1" and "chan_len (proveNotify p) \<le> 1"
  shows "chan_len (proveNotify (reqProving p)) = 1"
proof (cases "chan_len (proveNotify p) = 0")
  case True
  with assms reqProving_notify(2)[of p] show ?thesis by simp
next
  case False
  with assms have "chan_len (proveNotify p) = 1" by simp
  with assms reqProving_notify(3)[of p] show ?thesis by simp
qed

lemma reqProving_funpow:
  assumes "chan_cap (proveNotify p) = 1" and "chan_len (proveNotify p) \<le> 1" and "1 \<le> n"
  shows "chan_len (proveNotify ((reqProving ^^ n) p)) = 1
       \<and> chan_cap (proveNotify ((reqProving ^^ n) p)) = 1"
  using assms(3)
proof (induction n)
  case 0
  then show ?case by simp
next
  case (Suc n)
  show ?case
  proof (cases "n = 0")
    case True
    with assms reqProving_one[of p] reqProving_notify(1)[of p] show ?thesis by simp
  next
    case False
    with Suc.IH have ih: "chan_len (proveNotify ((reqProving ^^ n) p)) = 1"
       "chan_cap (proveNotify ((reqProving ^^ n) p)) = 1"
      by simp_all
    with reqProving_one[of "(reqProving ^^ n) p"] reqProving_notify(1)[of "(reqProving ^^ n) p"]
    show ?thesis by simp
  qed
qed

lemma spawn_submit_notify:
  "notify_inv s \<Longrightarrow> notify_inv (spawn_submit s w v)"
  by (simp add: notify_inv_def)

lemma step_notify_inv:
  assumes "notify_inv s" and "step s a = Some s'"
  shows "notify_inv s'"
proof (cases a)
  case (Call event)
  show ?thesis
  proof (cases "onBlockProposed (prover s) event")
    case None
    with assms Call show ?thesis
      by (auto simp: notify_inv_def split: if_splits)
  next
    case (Some r)
    from onBlockProposed_Some[OF Some] acquire_Some[of "prover s" event "ret_prover r"]
    have "proveNotify (ret_prover r) = proveNotify (prover s)"
      by auto
    with assms Call Some show ?thesis
      by (auto simp: notify_inv_def split: if_splits option.splits)
  qed
next
  case UnblockPropose
  with assms show ?thesis
    by (auto simp: notify_inv_def split: Site.splits option.splits dest!: acquire_Some)
next
  case (WorkerRequest k env)
  with assms show ?thesis
    by (auto simp: notify_inv_def split: if_splits option.splits)
next
  case (WorkerDone k)
  with assms show ?thesis
    by (auto simp: notify_inv_def split: if_splits option.splits)
next
  case (SelectProof v)
  with assms obtain w ch where
    "s' = spawn_submit (s\<lparr>prover := (prover s)\<lparr>proveValidProofCh := ch\<rparr>\<rparr>) w True
     \<or> s' = spawn_submit (s\<lparr>prover := (prover s)\<lparr>proveInvalidProofCh := ch\<rparr>\<rparr>) w False"
    by (auto split: if_splits option.splits)
  with assms(1) show ?thesis
    by (auto simp: notify_inv_def)
next
  case UnblockSubmit
  with assms show ?thesis
    by (auto simp: notify_inv_def split: Site.splits option.splits dest!: submit_acquire_Some)
next
  case (SubmitDone k)
  with assms show ?thesis
    by (auto simp: notify_inv_def split: if_splits option.splits)
next
  case SelectNotify
  with assms show ?thesis
    by (auto simp: notify_inv_def split: if_splits option.splits dest!: chan_recv_Some)
next
  case SelectBlockProposed
  with assms obtain ch where s': "s' = s\<lparr>prover := reqProving ((prover s)\<lparr>blockProposedCh := ch\<rparr>)\<rparr>"
    by (auto split: if_splits option.splits)
  from assms(1) reqProving_one[of "(prover s)\<lparr>blockProposedCh := ch\<rparr>"]
    reqProving_notify(1)[of "(prover s)\<lparr>blockProposedCh := ch\<rparr>"]
  show ?thesis
    unfolding s' by (simp add: notify_inv_def)
next
  case SelectBlockVerified
  with assms show ?thesis
    by (auto simp: notify_inv_def split: if_splits option.splits)
next
  case ForceProving
  with assms have s': "s' = s\<lparr>prover := reqProving (prover s)\<rparr>"
    by (auto split: if_splits)
  from assms(1) reqProving_one[of "prover s"] reqProving_notify(1)[of "prover s"]
  show ?thesis
    unfolding s' by (simp add: notify_inv_def)
next
  case (ProofProduced v w)
  with assms show ?thesis
    by (auto simp: notify_inv_def split: if_splits option.splits)
next
  case (EmitProposed e)
  with assms show ?thesis
    by (auto simp: notify_inv_def split: if_splits option.splits)
next
  case (EmitVerified e)
  with assms show ?thesis
    by (auto simp: notify_inv_def split: if_splits option.splits)
qed

lemma run_notify_inv:
  "notify_inv s \<Longrightarrow> run s acts = Some s' \<Longrightarrow> notify_inv s'"
proof (induction acts arbitrary: s)
  case Nil
  then show ?case by simp
next
  case (Cons a acts)
  then obtain s1 where s1: "step s a = Some s1" and r: "run s1 acts = Some s'"
    by (auto split: option.splits)
  from Cons.IH[OF step_notify_inv[OF Cons.prems(1) s1] r] show ?case .
qed

lemma reqSync_notify:
  "chan_cap (syncNotify (reqSync d)) = chan_cap (syncNotify d)"
  "chan_len (syncNotify d) < chan_cap (syncNotify d) \<Longrightarrow>
     chan_len (syncNotify (reqSync d)) = Suc (chan_len (syncNotify d))"
  "chan_cap (syncNotify d) \<le> chan_len (syncNotify d) \<Longrightarrow> reqSync d = d"
  by (auto simp: reqSync_def chan_send_def chan_len_def)

lemma reqSync_one:
  assumes "chan_cap (syncNotify d) = 1" and "chan_len (syncNotify d) \<le> 1"
  shows "chan_len (syncNotify (reqSync d)) = 1"
proof (cases "chan_len (syncNotify d) = 0")
  case True
  with assms reqSync_notify(2)[of d] show ?thesis by simp
next
  case False
  with assms have "chan_len (syncNotify d) = 1" by simp
  with assms reqSync_notify(3)[of d] show ?thesis by simp
qed

lemma reqSync_funpow:
  assumes "chan_cap (syncNotify d) = 1" and "chan_len (syncNotify d) \<le> 1" and "1 \<le> n"
  shows "chan_len (syncNotify ((reqSync ^^ n) d)) = 1
       \<and> chan_cap (syncNotify ((reqSync ^^ n) d)) = 1"
  using assms(3)
proof (induction n)
  case 0
  then show ?case by simp
next
  case (Suc n)
  show ?case
  proof (cases "n = 0")
    case True
    with assms reqSync_one[of d] reqSync_notify(1)[of d] show ?thesis by simp
  next
    case False
    with Suc.IH have ih: "chan_len (syncNotify ((reqSync ^^ n) d)) = 1"
       "chan_cap (syncNotify ((reqSync ^^ n) d)) = 1"
      by simp_all
    with reqSync_one[of "(reqSync ^^ n) d"] reqSync_notify(1)[of "(reqSync ^^ n) d"]
    show ?thesis by simp
  qed
qed

lemma reqProving_len:
  "chan_len (proveNotify p) \<le> chan_len (proveNotify (reqProving p))
   \<and> chan_len (proveNotify (reqProving p)) \<le> Suc (chan_len (proveNotify p))"
  by (auto simp: reqProving_def chan_send_def chan_len_def)

lemma reqSync_len:
  "chan_len (syncNotify d) \<le> chan_len (syncNotify (reqSync d))
   \<and> chan_len (syncNotify (reqSync d)) \<le> Suc (chan_len (syncNotify d))"
  by (auto simp: reqSync_def chan_send_def chan_len_def)

text \<open>
  What a step of the prover does to the number of tokens in \<^verbatim>\<open>proveNotify\<close>: the
  receive of line 231 takes one, the two callers of \<^verbatim>\<open>reqProving\<close> add at most
  one, and no other step touches the channel.
\<close>

lemma step_tokens:
  assumes "step s a = Some s'"
  shows "(a = SelectNotify \<longrightarrow>
            chan_len (proveNotify (prover s)) = Suc (chan_len (proveNotify (prover s'))))
       \<and> (a = SelectBlockProposed \<or> a = ForceProving \<longrightarrow>
            chan_len (proveNotify (prover s)) \<le> chan_len (proveNotify (prover s'))
            \<and> chan_len (proveNotify (prover s')) \<le> Suc (chan_len (proveNotify (prover s))))
       \<and> (a \<noteq> SelectNotify \<and> a \<noteq> SelectBlockProposed \<and> a \<noteq> ForceProving \<longrightarrow>
            proveNotify (prover s') = proveNotify (prover s))"
proof (cases a)
  case (Call event)
  show ?thesis
  proof (cases "onBlockProposed (prover s) event")
    case None
    with assms Call show ?thesis
      by (auto split: if_splits)
  next
    case (Some r)
    from onBlockProposed_Some[OF Some] acquire_Some[of "prover s" event "ret_prover r"]
    have "proveNotify (ret_prover r) = proveNotify (prover s)"
      by auto
    with assms Call Some show ?thesis
      by (auto split: if_splits option.splits)
  qed
next
  case UnblockPropose
  with assms show ?thesis
    by (auto split: Site.splits option.splits dest!: acquire_Some)
next
  case (WorkerRequest k env)
  with assms show ?thesis
    by (auto split: if_splits option.splits)
next
  case (WorkerDone k)
  with assms show ?thesis
    by (auto split: if_splits option.splits)
next
  case (SelectProof v)
  with assms obtain w ch where
    "s' = spawn_submit (s\<lparr>prover := (prover s)\<lparr>proveValidProofCh := ch\<rparr>\<rparr>) w True
     \<or> s' = spawn_submit (s\<lparr>prover := (prover s)\<lparr>proveInvalidProofCh := ch\<rparr>\<rparr>) w False"
    by (auto split: if_splits option.splits)
  with SelectProof show ?thesis
    by auto
next
  case UnblockSubmit
  with assms show ?thesis
    by (auto split: Site.splits option.splits dest!: submit_acquire_Some)
next
  case (SubmitDone k)
  with assms show ?thesis
    by (auto split: if_splits option.splits)
next
  case SelectNotify
  with assms show ?thesis
    by (auto split: if_splits option.splits dest!: chan_recv_Some)
next
  case SelectBlockProposed
  with assms obtain ch where s': "s' = s\<lparr>prover := reqProving ((prover s)\<lparr>blockProposedCh := ch\<rparr>)\<rparr>"
    by (auto split: if_splits option.splits)
  from reqProving_len[of "(prover s)\<lparr>blockProposedCh := ch\<rparr>"] SelectBlockProposed
  show ?thesis
    unfolding s' by simp
next
  case SelectBlockVerified
  with assms show ?thesis
    by (auto split: if_splits option.splits)
next
  case ForceProving
  with assms have s': "s' = s\<lparr>prover := reqProving (prover s)\<rparr>"
    by (auto split: if_splits)
  from reqProving_len[of "prover s"] ForceProving
  show ?thesis
    unfolding s' by simp
next
  case (ProofProduced v w)
  with assms show ?thesis
    by (auto split: if_splits option.splits)
next
  case (EmitProposed e)
  with assms show ?thesis
    by (auto split: if_splits option.splits)
next
  case (EmitVerified e)
  with assms show ?thesis
    by (auto split: if_splits option.splits)
qed

text \<open>
  Over a schedule: the tokens received and the token left never outnumber the
  requests made and the token there was; and while the token is not received, it
  stays.
\<close>

lemma count_list_Cons_if:
  "count_list (a # acts) x = (if a = x then 1 else 0) + count_list acts x"
  by simp

lemma step_delta:
  assumes "step s a = Some s'"
  shows "(if a = SelectNotify then 1 else 0) + chan_len (proveNotify (prover s'))
           \<le> (if a = SelectBlockProposed then 1 else 0) + (if a = ForceProving then 1 else 0)
              + chan_len (proveNotify (prover s))"
proof -
  note t = step_tokens[OF assms]
  consider "a = SelectNotify" | "a = SelectBlockProposed" | "a = ForceProving"
    | "a \<noteq> SelectNotify \<and> a \<noteq> SelectBlockProposed \<and> a \<noteq> ForceProving"
    by blast
  then show ?thesis
  proof cases
    case 1
    with t show ?thesis by simp
  next
    case 2
    with t show ?thesis by simp
  next
    case 3
    with t show ?thesis by simp
  next
    case 4
    with t have "proveNotify (prover s') = proveNotify (prover s)" by blast
    with 4 show ?thesis by simp
  qed
qed

lemma step_keeps_token:
  assumes "step s a = Some s'" and "a \<noteq> SelectNotify"
  shows "chan_len (proveNotify (prover s)) \<le> chan_len (proveNotify (prover s'))"
proof (cases "a = SelectBlockProposed \<or> a = ForceProving")
  case True
  with step_tokens[OF assms(1)] show ?thesis by blast
next
  case False
  with step_tokens[OF assms(1)] assms(2)
  have "proveNotify (prover s') = proveNotify (prover s)" by blast
  then show ?thesis by simp
qed

lemma run_tokens:
  "run s acts = Some s' \<Longrightarrow>
     count_list acts SelectNotify + chan_len (proveNotify (prover s'))
       \<le> count_list acts SelectBlockProposed + count_list acts ForceProving
          + chan_len (proveNotify (prover s))"
proof (induction acts arbitrary: s)
  case Nil
  then show ?case by simp
next
  case (Cons a acts)
  then obtain s1 where s1: "step s a = Some s1" and r: "run s1 acts = Some s'"
    by (auto split: option.splits)
  from Cons.IH[OF r] step_delta[OF s1] show ?case
    unfolding count_list_Cons_if by linarith
qed

lemma run_keeps_token:
  "run s acts = Some s' \<Longrightarrow> SelectNotify \<notin> set acts \<Longrightarrow>
     chan_len (proveNotify (prover s)) \<le> chan_len (proveNotify (prover s'))"
proof (induction acts arbitrary: s)
  case Nil
  then show ?case by simp
next
  case (Cons a acts)
  then obtain s1 where s1: "step s a = Some s1" and r: "run s1 acts = Some s'"
    by (auto split: option.splits)
  from Cons.prems have a: "a \<noteq> SelectNotify" and rest: "SelectNotify \<notin> set acts"
    by auto
  from step_keeps_token[OF s1 a] Cons.IH[OF r rest] show ?case
    by simp
qed

lemma run_pending:
  assumes inv: "notify_inv s"
    and run: "run s (as1 @ a # as2) = Some s'"
    and a: "a = SelectBlockProposed \<or> a = ForceProving"
    and rest: "SelectNotify \<notin> set as2"
  shows "chan_len (proveNotify (prover s')) = 1"
proof -
  from run obtain s1 s2 where r1: "run s as1 = Some s1" and st: "step s1 a = Some s2"
    and r2: "run s2 as2 = Some s'"
    by (auto simp: run_append split: option.splits)
  from run_notify_inv[OF inv r1] have i1: "notify_inv s1" .
  from a st obtain q where s2: "prover s2 = reqProving q"
    and q: "proveNotify q = proveNotify (prover s1)"
    by (auto split: if_splits option.splits)
  from i1 q reqProving_one[of q] have "chan_len (proveNotify (prover s2)) = 1"
    unfolding s2 by (simp add: notify_inv_def)
  with run_keeps_token[OF r2 rest] have "1 \<le> chan_len (proveNotify (prover s'))"
    by simp
  moreover from run_notify_inv[OF inv run] have "chan_len (proveNotify (prover s')) \<le> 1"
    by (simp add: notify_inv_def)
  ultimately show ?thesis
    by simp
qed

text \<open>The same for the driver.\<close>

lemma driver_step_sync_inv:
  assumes "sync_inv (driver s)" and "driver_step s a = Some s'"
  shows "sync_inv (driver s')"
proof (cases a)
  case (FeedL1Head h)
  with assms show ?thesis
    by (auto simp: sync_inv_def split: option.splits)
next
  case SelectL1Head
  with assms obtain ch where d': "driver s' = reqSync ((driver s)\<lparr>l1HeadCh := ch\<rparr>)"
    by (auto split: if_splits option.splits)
  from assms(1) reqSync_one[of "(driver s)\<lparr>l1HeadCh := ch\<rparr>"]
    reqSync_notify(1)[of "(driver s)\<lparr>l1HeadCh := ch\<rparr>"]
  show ?thesis
    unfolding d' by (simp add: sync_inv_def)
next
  case SelectSyncNotify
  with assms show ?thesis
    by (auto simp: sync_inv_def split: if_splits option.splits dest!: chan_recv_Some)
next
  case SyncReturns
  with assms show ?thesis
    by (auto simp: sync_inv_def split: if_splits)
qed

lemma driver_run_sync_inv:
  "sync_inv (driver s) \<Longrightarrow> driver_run s acts = Some s' \<Longrightarrow> sync_inv (driver s')"
proof (induction acts arbitrary: s)
  case Nil
  then show ?case by simp
next
  case (Cons a acts)
  then obtain s1 where s1: "driver_step s a = Some s1" and r: "driver_run s1 acts = Some s'"
    by (auto split: option.splits)
  from Cons.IH[OF driver_step_sync_inv[OF Cons.prems(1) s1] r] show ?case .
qed

lemma driver_run_append:
  "driver_run s (as1 @ as2)
     = (case driver_run s as1 of None \<Rightarrow> None | Some s1 \<Rightarrow> driver_run s1 as2)"
  by (induction as1 arbitrary: s) (auto split: option.splits)

lemma driver_step_tokens:
  assumes "driver_step s a = Some s'"
  shows "(a = SelectSyncNotify \<longrightarrow>
            chan_len (syncNotify (driver s)) = Suc (chan_len (syncNotify (driver s'))))
       \<and> (a = SelectL1Head \<longrightarrow>
            chan_len (syncNotify (driver s)) \<le> chan_len (syncNotify (driver s'))
            \<and> chan_len (syncNotify (driver s')) \<le> Suc (chan_len (syncNotify (driver s))))
       \<and> (a \<noteq> SelectSyncNotify \<and> a \<noteq> SelectL1Head \<longrightarrow>
            syncNotify (driver s') = syncNotify (driver s))"
proof (cases a)
  case (FeedL1Head h)
  with assms show ?thesis
    by (auto split: option.splits)
next
  case SelectL1Head
  with assms obtain ch where d': "driver s' = reqSync ((driver s)\<lparr>l1HeadCh := ch\<rparr>)"
    by (auto split: if_splits option.splits)
  from reqSync_len[of "(driver s)\<lparr>l1HeadCh := ch\<rparr>"] SelectL1Head
  show ?thesis
    unfolding d' by simp
next
  case SelectSyncNotify
  with assms show ?thesis
    by (auto split: if_splits option.splits dest!: chan_recv_Some)
next
  case SyncReturns
  with assms show ?thesis
    by (auto split: if_splits)
qed

lemma driver_step_delta:
  assumes "driver_step s a = Some s'"
  shows "(if a = SelectSyncNotify then 1 else 0) + chan_len (syncNotify (driver s'))
           \<le> (if a = SelectL1Head then 1 else 0) + chan_len (syncNotify (driver s))"
proof -
  note t = driver_step_tokens[OF assms]
  consider "a = SelectSyncNotify" | "a = SelectL1Head"
    | "a \<noteq> SelectSyncNotify \<and> a \<noteq> SelectL1Head"
    by blast
  then show ?thesis
  proof cases
    case 1
    with t show ?thesis by simp
  next
    case 2
    with t show ?thesis by simp
  next
    case 3
    with t have "syncNotify (driver s') = syncNotify (driver s)" by blast
    with 3 show ?thesis by simp
  qed
qed

lemma driver_step_keeps_token:
  assumes "driver_step s a = Some s'" and "a \<noteq> SelectSyncNotify"
  shows "chan_len (syncNotify (driver s)) \<le> chan_len (syncNotify (driver s'))"
proof (cases "a = SelectL1Head")
  case True
  with driver_step_tokens[OF assms(1)] show ?thesis by blast
next
  case False
  with driver_step_tokens[OF assms(1)] assms(2)
  have "syncNotify (driver s') = syncNotify (driver s)" by blast
  then show ?thesis by simp
qed

lemma driver_run_tokens:
  "driver_run s acts = Some s' \<Longrightarrow>
     count_list acts SelectSyncNotify + chan_len (syncNotify (driver s'))
       \<le> count_list acts SelectL1Head + chan_len (syncNotify (driver s))"
proof (induction acts arbitrary: s)
  case Nil
  then show ?case by simp
next
  case (Cons a acts)
  then obtain s1 where s1: "driver_step s a = Some s1" and r: "driver_run s1 acts = Some s'"
    by (auto split: option.splits)
  from Cons.IH[OF r] driver_step_delta[OF s1] show ?case
    unfolding count_list_Cons_if by linarith
qed

lemma driver_run_keeps_token:
  "driver_run s acts = Some s' \<Longrightarrow> SelectSyncNotify \<notin> set acts \<Longrightarrow>
     chan_len (syncNotify (driver s)) \<le> chan_len (syncNotify (driver s'))"
proof (induction acts arbitrary: s)
  case Nil
  then show ?case by simp
next
  case (Cons a acts)
  then obtain s1 where s1: "driver_step s a = Some s1" and r: "driver_run s1 acts = Some s'"
    by (auto split: option.splits)
  from Cons.prems have a: "a \<noteq> SelectSyncNotify" and rest: "SelectSyncNotify \<notin> set acts"
    by auto
  from driver_step_keeps_token[OF s1 a] Cons.IH[OF r rest] show ?case
    by simp
qed

lemma driver_run_pending:
  assumes inv: "sync_inv (driver s)"
    and run: "driver_run s (as1 @ SelectL1Head # as2) = Some s'"
    and rest: "SelectSyncNotify \<notin> set as2"
  shows "chan_len (syncNotify (driver s')) = 1"
proof -
  from run obtain s1 s2 where r1: "driver_run s as1 = Some s1"
    and st: "driver_step s1 SelectL1Head = Some s2" and r2: "driver_run s2 as2 = Some s'"
    by (auto simp: driver_run_append split: option.splits)
  from driver_run_sync_inv[OF inv r1] have i1: "sync_inv (driver s1)" .
  from st obtain ch where s2: "driver s2 = reqSync ((driver s1)\<lparr>l1HeadCh := ch\<rparr>)"
    by (auto split: if_splits option.splits)
  from i1 reqSync_one[of "(driver s1)\<lparr>l1HeadCh := ch\<rparr>"]
  have "chan_len (syncNotify (driver s2)) = 1"
    unfolding s2 by (simp add: sync_inv_def)
  with driver_run_keeps_token[OF r2 rest] have "1 \<le> chan_len (syncNotify (driver s'))"
    by simp
  moreover from driver_run_sync_inv[OF inv run]
  have "chan_len (syncNotify (driver s')) \<le> 1"
    by (simp add: sync_inv_def)
  ultimately show ?thesis
    by simp
qed

lemma driver_InitFromConfig_channels:
  "driver_InitFromConfig env ctx0 d0 = (err, d) \<Longrightarrow> syncNotify d = make_chan 1"
  by (auto simp: driver_InitFromConfig_def Let_def split: option.splits sum.splits)

text \<open>
  C3, as stated, fails in its last part. \<^verbatim>\<open>reqSync\<close> and \<^verbatim>\<open>reqProving\<close> are called
  by the event loop only, between two operations: a trigger that arrives while an
  operation is in progress waits in \<^verbatim>\<open>l1HeadCh\<close> or \<^verbatim>\<open>blockProposedCh\<close>. Three
  headers arrive during the first \<^verbatim>\<open>doSyncWithBackoff\<close> of the driver; when it has
  returned, \<^verbatim>\<open>select\<close> receives a header, then the token, and so on: the three
  headers give three tokens, each received and followed by a synchronisation. The
  same for three \<^verbatim>\<open>BlockProposed\<close> events that arrive during the \<^verbatim>\<open>proveOp\<close> of the
  prover's first token, the one of line 204: with it, four tokens are received.
\<close>

theorem notify_coalescing_counterexample:
  "\<exists>p s d ds.
      InitFromConfig example_InitEnv None (new_Prover :: unit Prover) (example_Config 2)
        = Some (None, p)
    \<and> run (Start p) three_events_schedule = Some s
    \<and> count_list three_events_schedule SelectBlockProposed = 3
    \<and> count_list three_events_schedule SelectNotify = 4
    \<and> chan_len (blockProposedCh (prover s)) = 0
    \<and> driver_InitFromConfig example_DriverInitEnv None (new_Driver :: unit Driver) = (None, d)
    \<and> driver_run (driver_Start d) three_heads_schedule = Some ds
    \<and> count_list three_heads_schedule SelectL1Head = 3
    \<and> count_list three_heads_schedule SelectSyncNotify = 3
    \<and> chan_len (l1HeadCh (driver ds)) = 0 \<and> syncing ds"
  by (simp add: three_events_schedule_def three_heads_schedule_def
        example_InitEnv_def example_DriverInitEnv_def new_Driver_def InitFromConfig_def
        Retry_def Retry_loop.simps initL1Current_def initL1Current_origin_def
        driver_InitFromConfig_def driver_Start_def reqProving_def reqSync_def Start_def
        new_Prover_def example_Config_def make_chan_def proposed_def chan_send_def
        chan_recv_def chan_len_def Uint64_def chBufferSize_def)

text \<open>
  C3, amended. Notify-channel coalescing. \<^verbatim>\<open>proveNotify\<close> and \<^verbatim>\<open>syncNotify\<close> are made
  with capacity one, and in every state that the prover (after an
  \<^verbatim>\<open>InitFromConfig\<close> that returned \<^verbatim>\<open>nil\<close>) and the driver reach, whatever the
  schedule, each holds at most one token. \<^verbatim>\<open>reqProving\<close> and \<^verbatim>\<open>reqSync\<close> never
  block (they are total), and on a full channel they change nothing. So \<open>n \<ge> 1\<close>
  requests in a row leave exactly one token pending, and once the loop has made a
  request, exactly one token is pending until the loop receives it, however many
  requests follow in between. The triggers that arrive during an operation are
  turned into requests one at a time after it, and the loop may receive the token
  between two of them: over any part of a schedule, the tokens received and the
  token left are at most as many as the requests made and the token there was.
\<close>

theorem notify_coalescing:
  assumes init: "InitFromConfig env ctx0 p0 cfg0 = Some (None, p)"
    and run: "run (Start p) acts = Some s"
    and dinit: "driver_InitFromConfig denv dctx d0 = (None, d)"
    and drun: "driver_run (driver_Start d) dacts = Some ds"
    and n: "1 \<le> n"
  shows "chan_cap (proveNotify (prover s)) = 1 \<and> chan_len (proveNotify (prover s)) \<le> 1
       \<and> (chan_len (proveNotify (prover s)) = 1 \<longrightarrow> reqProving (prover s) = prover s)
       \<and> chan_len (proveNotify ((reqProving ^^ n) (prover s))) = 1
       \<and> (\<forall>as1 a as2. acts = as1 @ a # as2 \<and> (a = SelectBlockProposed \<or> a = ForceProving)
              \<and> SelectNotify \<notin> set as2 \<longrightarrow>
            chan_len (proveNotify (prover s)) = 1)
       \<and> (\<forall>as1 as2 s1. acts = as1 @ as2 \<and> run (Start p) as1 = Some s1 \<longrightarrow>
            count_list as2 SelectNotify + chan_len (proveNotify (prover s))
              \<le> count_list as2 SelectBlockProposed + count_list as2 ForceProving
                 + chan_len (proveNotify (prover s1)))
       \<and> chan_cap (syncNotify (driver ds)) = 1 \<and> chan_len (syncNotify (driver ds)) \<le> 1
       \<and> (chan_len (syncNotify (driver ds)) = 1 \<longrightarrow> reqSync (driver ds) = driver ds)
       \<and> chan_len (syncNotify ((reqSync ^^ n) (driver ds))) = 1
       \<and> (\<forall>as1 as2. dacts = as1 @ SelectL1Head # as2 \<and> SelectSyncNotify \<notin> set as2 \<longrightarrow>
            chan_len (syncNotify (driver ds)) = 1)
       \<and> (\<forall>as1 as2 s1. dacts = as1 @ as2 \<and> driver_run (driver_Start d) as1 = Some s1 \<longrightarrow>
            count_list as2 SelectSyncNotify + chan_len (syncNotify (driver ds))
              \<le> count_list as2 SelectL1Head + chan_len (syncNotify (driver s1)))"
proof -
  from InitFromConfig_ok[OF init] have pinv: "notify_inv (Start p)"
    by (simp add: notify_inv_def Start_def make_chan_def chan_len_def)
  from run_notify_inv[OF pinv run]
  have pn: "chan_cap (proveNotify (prover s)) = 1" "chan_len (proveNotify (prover s)) \<le> 1"
    by (simp_all add: notify_inv_def)
  from driver_InitFromConfig_channels[OF dinit] have dinv: "sync_inv (driver (driver_Start d))"
    by (simp add: sync_inv_def driver_Start_def make_chan_def chan_len_def)
  from driver_run_sync_inv[OF dinv drun]
  have sn: "chan_cap (syncNotify (driver ds)) = 1" "chan_len (syncNotify (driver ds)) \<le> 1"
    by (simp_all add: sync_inv_def)
  have full_p: "chan_len (proveNotify (prover s)) = 1 \<longrightarrow> reqProving (prover s) = prover s"
    using reqProving_notify(3)[of "prover s"] pn by simp
  have full_d: "chan_len (syncNotify (driver ds)) = 1 \<longrightarrow> reqSync (driver ds) = driver ds"
    using reqSync_notify(3)[of "driver ds"] sn by simp
  from reqProving_funpow[OF pn n]
  have row_p: "chan_len (proveNotify ((reqProving ^^ n) (prover s))) = 1"
    by simp
  from reqSync_funpow[OF sn n]
  have row_d: "chan_len (syncNotify ((reqSync ^^ n) (driver ds))) = 1"
    by simp
  have pend_p: "\<forall>as1 a as2. acts = as1 @ a # as2 \<and> (a = SelectBlockProposed \<or> a = ForceProving)
              \<and> SelectNotify \<notin> set as2 \<longrightarrow>
            chan_len (proveNotify (prover s)) = 1"
    using run_pending[OF pinv] run by blast
  have pend_d: "\<forall>as1 as2. dacts = as1 @ SelectL1Head # as2 \<and> SelectSyncNotify \<notin> set as2 \<longrightarrow>
            chan_len (syncNotify (driver ds)) = 1"
    using driver_run_pending[OF dinv] drun by blast
  have count_p: "\<forall>as1 as2 s1. acts = as1 @ as2 \<and> run (Start p) as1 = Some s1 \<longrightarrow>
            count_list as2 SelectNotify + chan_len (proveNotify (prover s))
              \<le> count_list as2 SelectBlockProposed + count_list as2 ForceProving
                 + chan_len (proveNotify (prover s1))"
  proof (intro allI impI)
    fix as1 as2 s1
    assume "acts = as1 @ as2 \<and> run (Start p) as1 = Some s1"
    with run have "run s1 as2 = Some s"
      by (simp add: run_append)
    from run_tokens[OF this]
    show "count_list as2 SelectNotify + chan_len (proveNotify (prover s))
              \<le> count_list as2 SelectBlockProposed + count_list as2 ForceProving
                 + chan_len (proveNotify (prover s1))" .
  qed
  have count_d: "\<forall>as1 as2 s1. dacts = as1 @ as2 \<and> driver_run (driver_Start d) as1 = Some s1 \<longrightarrow>
            count_list as2 SelectSyncNotify + chan_len (syncNotify (driver ds))
              \<le> count_list as2 SelectL1Head + chan_len (syncNotify (driver s1))"
  proof (intro allI impI)
    fix as1 as2 s1
    assume "dacts = as1 @ as2 \<and> driver_run (driver_Start d) as1 = Some s1"
    with drun have "driver_run s1 as2 = Some ds"
      by (simp add: driver_run_append)
    from driver_run_tokens[OF this]
    show "count_list as2 SelectSyncNotify + chan_len (syncNotify (driver ds))
              \<le> count_list as2 SelectL1Head + chan_len (syncNotify (driver s1))" .
  qed
  show ?thesis
    by (intro conjI pn sn full_p full_d row_p row_d pend_p pend_d count_p count_d)
qed

theorem notify_coalescing_witness:
  "\<exists>p s d ds.
      InitFromConfig example_InitEnv None (new_Prover :: unit Prover) (example_Config 2)
        = Some (None, p)
    \<and> run (Start p)
          [ForceProving, SelectNotify, EmitProposed (proposed 9 41),
           EmitProposed (proposed 10 41), EmitProposed (proposed 11 41),
           SelectBlockProposed, SelectBlockProposed, SelectBlockProposed] = Some s
    \<and> driver_InitFromConfig example_DriverInitEnv None (new_Driver :: unit Driver) = (None, d)
    \<and> driver_run (driver_Start d)
          [FeedL1Head (), FeedL1Head (), FeedL1Head (), SyncReturns,
           SelectL1Head, SelectL1Head, SelectL1Head] = Some ds
    \<and> chan_len (proveNotify (prover s)) = 1
    \<and> reqProving (prover s) = prover s
    \<and> chan_len (proveNotify ((reqProving ^^ 3) (prover s))) = 1
    \<and> chan_len (syncNotify (driver ds)) = 1
    \<and> reqSync (driver ds) = driver ds
    \<and> chan_len (syncNotify ((reqSync ^^ 3) (driver ds))) = 1"
proof -
  have "\<exists>p s d ds.
      InitFromConfig example_InitEnv None (new_Prover :: unit Prover) (example_Config 2)
        = Some (None, p)
    \<and> run (Start p)
          [ForceProving, SelectNotify, EmitProposed (proposed 9 41),
           EmitProposed (proposed 10 41), EmitProposed (proposed 11 41),
           SelectBlockProposed, SelectBlockProposed, SelectBlockProposed] = Some s
    \<and> driver_InitFromConfig example_DriverInitEnv None (new_Driver :: unit Driver) = (None, d)
    \<and> driver_run (driver_Start d)
          [FeedL1Head (), FeedL1Head (), FeedL1Head (), SyncReturns,
           SelectL1Head, SelectL1Head, SelectL1Head] = Some ds"
    by (simp add: example_InitEnv_def example_DriverInitEnv_def new_Driver_def
          InitFromConfig_def Retry_def Retry_loop.simps initL1Current_def
          initL1Current_origin_def driver_InitFromConfig_def driver_Start_def
          reqProving_def reqSync_def Start_def new_Prover_def example_Config_def
          make_chan_def proposed_def chan_send_def chan_recv_def chan_len_def Uint64_def
          chBufferSize_def)
  then obtain p s and d :: "unit Driver" and ds where
    i: "InitFromConfig example_InitEnv None (new_Prover :: unit Prover) (example_Config 2)
          = Some (None, p)"
    and r: "run (Start p)
          [ForceProving, SelectNotify, EmitProposed (proposed 9 41),
           EmitProposed (proposed 10 41), EmitProposed (proposed 11 41),
           SelectBlockProposed, SelectBlockProposed, SelectBlockProposed] = Some s"
    and di: "driver_InitFromConfig example_DriverInitEnv None (new_Driver :: unit Driver)
               = (None, d)"
    and dr: "driver_run (driver_Start d)
          [FeedL1Head (), FeedL1Head (), FeedL1Head (), SyncReturns,
           SelectL1Head, SelectL1Head, SelectL1Head] = Some ds"
    by blast
  have n: "(1::nat) \<le> 3"
    by simp
  note facts = notify_coalescing[OF i r di dr n]
  note pend_p = facts[THEN conjunct2, THEN conjunct2, THEN conjunct2, THEN conjunct2,
                      THEN conjunct1, rule_format]
  note rest = facts[THEN conjunct2, THEN conjunct2, THEN conjunct2, THEN conjunct2,
                    THEN conjunct2, THEN conjunct2]
  note pend_d = rest[THEN conjunct2, THEN conjunct2, THEN conjunct2, THEN conjunct2,
                     THEN conjunct1, rule_format]
  have split_p:
    "[ForceProving, SelectNotify, EmitProposed (proposed 9 41),
      EmitProposed (proposed 10 41), EmitProposed (proposed 11 41),
      SelectBlockProposed, SelectBlockProposed, SelectBlockProposed]
     = [ForceProving, SelectNotify, EmitProposed (proposed 9 41),
        EmitProposed (proposed 10 41), EmitProposed (proposed 11 41),
        SelectBlockProposed, SelectBlockProposed] @ SelectBlockProposed # []
     \<and> (SelectBlockProposed = SelectBlockProposed \<or> SelectBlockProposed = ForceProving)
     \<and> SelectNotify \<notin> set []"
    by simp
  have split_d:
    "[FeedL1Head (), FeedL1Head (), FeedL1Head (), SyncReturns,
      SelectL1Head, SelectL1Head, SelectL1Head]
     = [FeedL1Head (), FeedL1Head (), FeedL1Head (), SyncReturns,
        SelectL1Head, SelectL1Head] @ SelectL1Head # []
     \<and> SelectSyncNotify \<notin> set []"
    by simp
  from pend_p[OF split_p] have l1: "chan_len (proveNotify (prover s)) = 1" .
  from pend_d[OF split_d] have l2: "chan_len (syncNotify (driver ds)) = 1" .
  from facts[THEN conjunct2, THEN conjunct2, THEN conjunct1] l1
  have n1: "reqProving (prover s) = prover s"
    by simp
  from rest[THEN conjunct2, THEN conjunct2, THEN conjunct1] l2
  have n2: "reqSync (driver ds) = driver ds"
    by simp
  from facts[THEN conjunct2, THEN conjunct2, THEN conjunct2, THEN conjunct1]
  have f1: "chan_len (proveNotify ((reqProving ^^ 3) (prover s))) = 1" .
  from rest[THEN conjunct2, THEN conjunct2, THEN conjunct2, THEN conjunct1]
  have f2: "chan_len (syncNotify ((reqSync ^^ 3) (driver ds))) = 1" .
  show ?thesis
    by (intro exI[of _ p] exI[of _ s] exI[of _ d] exI[of _ ds] conjI i r di dr l1 n1 f1 l2 n2 f2)
qed

subsection \<open>The status report of the driver\<close>

lemma uint_sub_sub_one: "uint (a - b - 1 :: uint64) = (uint a - uint b - 1) mod 2 ^ 64"
  by (simp add: uint_word_ariths mod_diff_left_eq)

lemma uint_add_sub: "uint (a + m - b :: uint64) = (uint a + uint m - uint b) mod 2 ^ 64"
  by (simp add: uint_word_ariths mod_diff_left_eq mod_add_eq)

lemma Retry_loop_constant:
  assumes "\<And>j. j < n \<Longrightarrow> \<exists>e. operation (k + j) (st j) = (Some e, st (Suc j)) \<and> permanent e = None"
    and "operation (k + n) (st n) = (None, s')"
  shows "Retry_loop operation (NewConstantBackOff d) k (st 0) waits
           = Some (None, s', waits @ replicate n d)"
  using assms
proof (induction n arbitrary: k st waits)
  case 0
  then show ?case
    by (simp add: Retry_loop.simps)
next
  case (Suc n)
  from Suc.prems(1)[of 0] obtain e where
    e: "operation k (st 0) = (Some e, st (Suc 0))" "permanent e = None"
    by auto
  have "Retry_loop operation (NewConstantBackOff d) (Suc k) ((st \<circ> Suc) 0) (waits @ [d])
          = Some (None, s', (waits @ [d]) @ replicate n d)"
  proof (rule Suc.IH)
    fix j assume "j < n"
    with Suc.prems(1)[of "Suc j"]
    show "\<exists>e. operation (Suc k + j) ((st \<circ> Suc) j) = (Some e, (st \<circ> Suc) (Suc j)) \<and> permanent e = None"
      by simp
  next
    from Suc.prems(2) show "operation (Suc k + n) ((st \<circ> Suc) n) = (None, s')"
      by simp
  qed
  with e show ?case
    by (subst Retry_loop.simps) (simp add: NewConstantBackOff_def replicate_app_Cons_same)
qed

text \<open>
  C9. Driver status arithmetic. \<^verbatim>\<open>reportProtocolStatus\<close> reads \<^verbatim>\<open>maxNumBlocks\<close> once,
  in a retry loop with a constant wait: when \<^verbatim>\<open>GetConfig\<close> fails \<open>n\<close> times (with no
  permanent error) and then answers, the loop returns and that answer, as a
  \<^verbatim>\<open>uint64\<close>, is used at every tick. At each tick whose read of the protocol state
  succeeds the logged record has \<open>pendingBlocks = NextBlockId - LatestVerifiedId - 1\<close>
  and \<open>availableSlots = LatestVerifiedId + maxNumBlocks - NextBlockId\<close> in 64-bit
  unsigned arithmetic, that is, modulo \<open>2 ^ 64\<close>; a tick whose read fails logs the
  error. The ticks of the 30-second ticker are inputs; time itself is not modelled.
\<close>

theorem status_arithmetic:
  assumes fail: "\<forall>j<n. \<exists>e. GetConfig_MaxNumBlocks j = Inl e \<and> permanent e = None"
    and ok: "GetConfig_MaxNumBlocks n = Inr configs_MaxNumBlocks"
  shows "reportProtocolStatus GetConfig_MaxNumBlocks ticks =
           Some (map (\<lambda>tick. case tick of
                        Inl err \<Rightarrow> LogError ''Failed to get protocol state variables'' err
                      | Inr vars \<Rightarrow>
                          LogStatus
                            \<lparr>status_latestVerifiedId = LatestVerifiedId vars,
                             status_latestVerifiedHeight = LatestVerifiedHeight vars,
                             status_pendingBlocks =
                               NextBlockId vars - LatestVerifiedId vars - 1,
                             status_availableSlots =
                               LatestVerifiedId vars + Uint64 configs_MaxNumBlocks
                                 - NextBlockId vars\<rparr>)
                   ticks)
       \<and> uint (status_pendingBlocks (protocolStatus maxNumBlocks vars)) =
            (uint (NextBlockId vars) - uint (LatestVerifiedId vars) - 1) mod 2 ^ 64
       \<and> uint (status_availableSlots (protocolStatus maxNumBlocks vars)) =
            (uint (LatestVerifiedId vars) + uint maxNumBlocks - uint (NextBlockId vars))
              mod 2 ^ 64"
proof -
  let ?op = "\<lambda>k maxNumBlocks.
               case GetConfig_MaxNumBlocks k of
                 Inl err \<Rightarrow> (Some err, maxNumBlocks)
               | Inr c \<Rightarrow> (None, Uint64 c)"
  have "Retry_loop ?op (NewConstantBackOff RetryDelay) 0 ((\<lambda>j. 0) 0) []
          = Some (None, Uint64 configs_MaxNumBlocks, [] @ replicate n RetryDelay)"
  proof (rule Retry_loop_constant)
    fix j assume "j < n"
    with fail show "\<exists>e. ?op (0 + j) 0 = (Some e, 0) \<and> permanent e = None"
      by auto
  next
    from ok show "?op (0 + n) 0 = (None, Uint64 configs_MaxNumBlocks)"
      by simp
  qed
  then have "reportProtocolStatus GetConfig_MaxNumBlocks ticks =
      Some (map (\<lambda>tick. case tick of
                   Inl err \<Rightarrow> LogError ''Failed to get protocol state variables'' err
                 | Inr vars \<Rightarrow> LogStatus (protocolStatus (Uint64 configs_MaxNumBlocks) vars))
              ticks)"
    by (simp add: reportProtocolStatus_def Retry_def)
  then show ?thesis
    by (auto simp: protocolStatus_def uint_sub_sub_one uint_add_sub split: sum.splits)
qed

theorem status_arithmetic_witness:
  "reportProtocolStatus
       (\<lambda>k. if k < 2 then Inl (Error ''timeout'') else Inr 10)
       [Inr \<lparr>GenesisHeight = 1, LatestVerifiedHeight = 90, LatestVerifiedId = 3,
             NextBlockId = 8\<rparr>,
        Inl (Error ''timeout''),
        Inr \<lparr>GenesisHeight = 1, LatestVerifiedHeight = 95, LatestVerifiedId = 8,
             NextBlockId = 8\<rparr>]
     = Some [LogStatus \<lparr>status_latestVerifiedId = 3, status_latestVerifiedHeight = 90,
                         status_pendingBlocks = 4, status_availableSlots = 5\<rparr>,
             LogError ''Failed to get protocol state variables'' (Error ''timeout''),
             LogStatus \<lparr>status_latestVerifiedId = 8, status_latestVerifiedHeight = 95,
                         status_pendingBlocks = 18446744073709551615,
                         status_availableSlots = 10\<rparr>]
   \<and> uint (status_pendingBlocks (protocolStatus 10
              \<lparr>GenesisHeight = 1, LatestVerifiedHeight = 95, LatestVerifiedId = 8,
               NextBlockId = 8\<rparr>)) = 2 ^ 64 - 1"
  using status_arithmetic
          [of 2 "\<lambda>k. if k < 2 then Inl (Error ''timeout'') else Inr 10" 10
              "[Inr \<lparr>GenesisHeight = 1, LatestVerifiedHeight = 90, LatestVerifiedId = 3,
                     NextBlockId = 8\<rparr>,
                Inl (Error ''timeout''),
                Inr \<lparr>GenesisHeight = 1, LatestVerifiedHeight = 95, LatestVerifiedId = 8,
                     NextBlockId = 8\<rparr>]"
              10
              "\<lparr>GenesisHeight = 1, LatestVerifiedHeight = 95, LatestVerifiedId = 8,
                NextBlockId = 8\<rparr>"]
  by (simp add: Uint64_def)

subsection \<open>The retry loop of submitProofOp\<close>

text \<open>
  The goroutine of \<^verbatim>\<open>submitProofOp\<close> calls \<^verbatim>\<open>SubmitProof\<close> exactly once unless the
  proof is a valid one and the producer is the dummy one; in that case it calls it
  until a call returns \<^verbatim>\<open>nil\<close>, waiting 12 seconds between the calls, and never
  returns when every call fails. The retry loops of \<^verbatim>\<open>InitFromConfig\<close> and of the
  driver's \<^verbatim>\<open>doSync\<close> return at once when the context is done.
\<close>

lemma Retry_loop_never_aux:
  "Retry_loop operation b k s waits = Some res \<Longrightarrow>
     (\<forall>j t. \<exists>e t'. operation j t = (Some e, t') \<and> permanent e = None) \<longrightarrow>
     (\<forall>j. b j \<noteq> None) \<longrightarrow> False"
proof (induction operation b k s waits res
    rule: Retry_loop.raw_induct[rotated 1, consumes 1, case_names step])
  case (step R operation b k s waits res)
  show ?case
  proof (intro impI)
    assume op: "\<forall>j t. \<exists>e t'. operation j t = (Some e, t') \<and> permanent e = None"
      and b: "\<forall>j. b j \<noteq> None"
    from op obtain e t where o: "operation k s = (Some e, t)" "permanent e = None"
      by blast
    from b obtain d where d: "b k = Some d"
      by auto
    from step.hyps o d have "R operation b (Suc k) t (waits @ [d]) = Some res"
      by simp
    from step.IH[OF this] op b show False
      by blast
  qed
qed

lemma Retry_never:
  assumes "\<And>j t. \<exists>e t'. operation j t = (Some e, t') \<and> permanent e = None"
    and "\<And>j. b j \<noteq> None"
  shows "Retry operation b s = None"
proof (cases "Retry operation b s")
  case None
  then show ?thesis .
next
  case (Some res)
  with Retry_loop_never_aux[of operation b 0 s "[]" res] assms show ?thesis
    unfolding Retry_def by blast
qed

lemma submitProofOp_task_once:
  "\<not> (isValidProof \<and> Dummy (cfg p)) \<Longrightarrow>
     \<exists>err. submitProofOp_task env p proofWithHeader isValidProof = Some (err, 1, [])"
  by (auto simp: submitProofOp_task_def)

lemma submitProofOp_task_retries:
  assumes "Dummy (cfg p)"
    and "\<And>j. j < n \<Longrightarrow>
           \<exists>e. valid_SubmitProof env j (ctx p) proofWithHeader True = Some e \<and> permanent e = None"
    and "valid_SubmitProof env n (ctx p) proofWithHeader True = None"
  shows "submitProofOp_task env p proofWithHeader True
           = Some (None, Suc n, replicate n (12 * Second))"
proof -
  let ?op = "\<lambda>k calls. (valid_SubmitProof env k (ctx p) proofWithHeader True, Suc calls)"
  have "Retry_loop ?op (NewConstantBackOff (12 * Second)) 0 ((\<lambda>j. j) 0) []
          = Some (None, Suc n, [] @ replicate n (12 * Second))"
  proof (rule Retry_loop_constant)
    fix j assume "j < n"
    with assms(2) show "\<exists>e. ?op (0 + j) j = (Some e, Suc j) \<and> permanent e = None"
      by auto
  next
    from assms(3) show "?op (0 + n) n = (None, Suc n)"
      by simp
  qed
  with assms(1) show ?thesis
    by (simp add: submitProofOp_task_def Retry_def)
qed

lemma submitProofOp_task_never:
  assumes "Dummy (cfg p)"
    and "\<And>j. \<exists>e. valid_SubmitProof env j (ctx p) proofWithHeader True = Some e \<and> permanent e = None"
  shows "submitProofOp_task env p proofWithHeader True = None"
proof -
  have "Retry (\<lambda>k calls. (valid_SubmitProof env k (ctx p) proofWithHeader True, Suc calls))
          (NewConstantBackOff (12 * Second)) 0 = None"
  proof (rule Retry_never)
    fix j :: nat and t :: nat
    from assms(2)[of j]
    show "\<exists>e t'. (valid_SubmitProof env j (ctx p) proofWithHeader True, Suc t) = (Some e, t')
             \<and> permanent e = None"
      by auto
  next
    fix j show "NewConstantBackOff (12 * Second) j \<noteq> None"
      by (simp add: NewConstantBackOff_def)
  qed
  with assms(1) show ?thesis
    by (simp add: submitProofOp_task_def)
qed

lemma InitFromConfig_cancelled:
  assumes "ctx0 = Some err" and "NewClient env = None" and "GetConfig env = None"
  shows "\<exists>p. InitFromConfig env ctx0 p0 cfg0 = Some (Some err, p)"
  using assms
  by (simp add: InitFromConfig_def Let_def Retry_def Retry_loop.simps)

lemma doSyncWithBackoff_cancelled:
  "driver_ctx d \<noteq> None \<Longrightarrow> doSyncWithBackoff d syncResult b = Some (None, [])"
  by (simp add: doSyncWithBackoff_def doSync_def Retry_def Retry_loop.simps)

text \<open>
  C5. Oracle resubmission on cancel. With the dummy producer and a valid proof, when
  the context is cancelled and \<^verbatim>\<open>SubmitProof\<close> answers every call with the
  context's error, the goroutine of \<^verbatim>\<open>submitProofOp\<close> never leaves the retry loop:
  the loop does not test \<^verbatim>\<open>ctx.Err()\<close>. With the same answers and a producer that
  is not the dummy one, \<^verbatim>\<open>SubmitProof\<close> is called once and its error is logged.
\<close>

theorem oracle_retry_ignores_cancel:
  "submitProofOp_task example_SubmitEnv
     (new_Prover\<lparr>cfg := (example_Config 1)\<lparr>Dummy := True\<rparr>,
                 ctx := Some (Error ''context canceled'')\<rparr>)
     () True = None
   \<and> submitProofOp_task example_SubmitEnv
     (new_Prover\<lparr>cfg := example_Config 1, ctx := Some (Error ''context canceled'')\<rparr>)
     () True = Some (Some (Error ''context canceled''), 1, [])"
proof
  show "submitProofOp_task example_SubmitEnv
     (new_Prover\<lparr>cfg := (example_Config 1)\<lparr>Dummy := True\<rparr>,
                 ctx := Some (Error ''context canceled'')\<rparr>)
     () True = None"
    by (rule submitProofOp_task_never) (simp_all add: example_SubmitEnv_def)
next
  show "submitProofOp_task example_SubmitEnv
     (new_Prover\<lparr>cfg := example_Config 1, ctx := Some (Error ''context canceled'')\<rparr>)
     () True = Some (Some (Error ''context canceled''), 1, [])"
    by (simp add: submitProofOp_task_def example_SubmitEnv_def example_Config_def)
qed

subsection \<open>The skip paths of onBlockProposed\<close>












end
